theory Spec2Isabelle
  imports Main "HOL-Library.Word" "HOL-Library.Sublist"
begin

unbundle bit_operations_syntax

section \<open>Strings\<close>

text \<open>
  A Go string is a byte sequence. Code that only compares, concatenates or replaces single
  ASCII bytes is modelled on \<open>string\<close> (a list of 8-bit characters). Code that iterates
  over a string by rune (\<^verbatim>\<open>for _, r := range text\<close>, \<^verbatim>\<open>strings.Fields\<close>) is modelled on
  the sequence of Unicode code points of a valid UTF-8 string, with the byte length
  recovered from the UTF-8 encoding width of each code point.
\<close>

type_synonym rune = nat
type_synonym runes = "rune list"

definition text_of :: "string \<Rightarrow> runes" where
  "text_of s = map of_char s"

definition utf8_width :: "rune \<Rightarrow> nat" where
  "utf8_width r = (if r < 0x80 then 1 else if r < 0x800 then 2 else if r < 0x10000 then 3 else 4)"

text \<open>Go's \<^verbatim>\<open>len(text)\<close>: the number of bytes.\<close>

definition len :: "runes \<Rightarrow> nat" where
  "len t = sum_list (map utf8_width t)"

text \<open>
  \<^verbatim>\<open>unicode.IsSpace\<close>: in Latin-1 the characters \<^verbatim>\<open>\t \n \v \f \r\<close>, space, U+0085 and
  U+00A0; above Latin-1 the code points with the White_Space property.
\<close>

definition IsSpace :: "rune \<Rightarrow> bool" where
  "IsSpace r = ((0x09 \<le> r \<and> r \<le> 0x0D) \<or> r = 0x20 \<or> r = 0x85 \<or> r = 0xA0 \<or> r = 0x1680
      \<or> (0x2000 \<le> r \<and> r \<le> 0x200A) \<or> r = 0x2028 \<or> r = 0x2029 \<or> r = 0x202F
      \<or> r = 0x205F \<or> r = 0x3000)"

text \<open>
  \<^verbatim>\<open>strings.Fields\<close>: the maximal runs of non-space code points, in order. \<open>cur\<close> is the
  field being read.
\<close>

fun fields_from :: "runes \<Rightarrow> runes \<Rightarrow> runes list" where
  "fields_from cur [] = (if cur = [] then [] else [cur])"
| "fields_from cur (r # rs) =
     (if IsSpace r then (if cur = [] then fields_from [] rs else cur # fields_from [] rs)
      else fields_from (cur @ [r]) rs)"

definition Fields :: "runes \<Rightarrow> runes list" where
  "Fields s = fields_from [] s"

text \<open>\<^verbatim>\<open>fmt.Sprintf("%d", i)\<close>: the decimal digits, with a leading minus sign.\<close>

definition digit_char :: "nat \<Rightarrow> char" where
  "digit_char d = ''0123456789'' ! d"

fun digits :: "nat \<Rightarrow> string" where
  "digits n = (if n < 10 then [digit_char n] else digits (n div 10) @ [digit_char (n mod 10)])"

declare digits.simps [simp del]

definition show_int :: "int \<Rightarrow> string" where
  "show_int i = (if i < 0 then CHR ''-'' # digits (nat (- i)) else digits (nat i))"

section \<open>internal/llm: client configuration\<close>

text \<open>
  \<^verbatim>\<open>config.LLM\<close> (only the field the summarizer reads) and \<^verbatim>\<open>llm.Client\<close>.
  Go's \<^verbatim>\<open>int\<close> is modelled as \<open>int\<close>: \<^verbatim>\<open>Config.Validate\<close> rejects
  \<^verbatim>\<open>MaxTokens <= 0\<close>, so \<^verbatim>\<open>MaxTokens - 2000\<close> never wraps.
\<close>

record LLM =
  MaxTokens :: int

record Client =
  config :: LLM
  maxInputTokens :: int

definition NewClient :: "LLM \<Rightarrow> Client" where
  "NewClient cfg = \<lparr> config = cfg, maxInputTokens = MaxTokens cfg - 2000 \<rparr>"

section \<open>internal/llm: token estimator\<close>

text \<open>
  The counting loop of \<^verbatim>\<open>estimateTokens\<close>: \<open>(chineseChars, englishWords)\<close> after ranging
  over the runes.
\<close>

fun count_runes :: "runes \<Rightarrow> nat \<times> nat \<Rightarrow> nat \<times> nat" where
  "count_runes [] acc = acc"
| "count_runes (r # rs) (chineseChars, englishWords) =
     (if 0x4e00 \<le> r \<and> r \<le> 0x9fff then count_runes rs (chineseChars + 1, englishWords)
      else if (of_char CHR ''a'' \<le> r \<and> r \<le> of_char CHR ''z'') \<or> (of_char CHR ''A'' \<le> r \<and> r \<le> of_char CHR ''Z'')
           then count_runes rs (chineseChars, englishWords + 1)
      else count_runes rs (chineseChars, englishWords))"

text \<open>
  \<^verbatim>\<open>estimateTokens\<close>. The letter count of the loop is overwritten by the number of
  whitespace-separated fields, as in the source. The source computes
  \<^verbatim>\<open>int(float64(chineseChars)*1.5 + float64(englishWords)*1.3)\<close>; the model computes
  \<open>(15 * chineseChars + 13 * englishWords) div 10\<close> in exact arithmetic. The two agree for
  every text shorter than \<open>2^40\<close> bytes: \<open>1.5 * c\<close> is exact, the double nearest to 1.3
  exceeds 1.3 by less than \<open>5 * 10^-17\<close>, every exact value is a multiple of \<open>1/10\<close>,
  and rounding to nearest is monotone, so truncation yields the same integer.
\<close>

definition estimateTokens :: "runes \<Rightarrow> int" where
  "estimateTokens txt =
     (let (chineseChars, englishWords0) = count_runes txt (0, 0);
          words = Fields txt;
          englishWords = length words;
          tokens = (15 * int chineseChars + 13 * int englishWords) div 10
      in if tokens < int (len txt) div 4 then int (len txt) div 4 else tokens)"

section \<open>internal/llm: prompt lines and the chunker\<close>

record ChatMessage =
  MessageID :: int
  SenderID :: int
  SenderName :: runes
  Text :: runes

text \<open>The line \<^verbatim>\<open>fmt.Sprintf("[%s|%d] %s", m.SenderName, m.MessageID, m.Text)\<close>.\<close>

definition line :: "ChatMessage \<Rightarrow> runes" where
  "line m = text_of ''['' @ SenderName m @ text_of ''|'' @ text_of (show_int (MessageID m))
            @ text_of ''] '' @ Text m"

fun join :: "runes \<Rightarrow> runes list \<Rightarrow> runes" where
  "join sep [] = []"
| "join sep [x] = x"
| "join sep (x # y # ys) = x @ sep @ join sep (y # ys)"

definition messagesToPromptText :: "ChatMessage list \<Rightarrow> runes" where
  "messagesToPromptText msgs = join (text_of [CHR 0x0A]) (map line msgs)"

text \<open>
  The loop of \<^verbatim>\<open>splitMessagesIntoChunks\<close> with its three variables \<open>chunks\<close>, \<open>current\<close>
  and \<open>currentTokens\<close>, and the flush after the loop.
\<close>

fun split_loop :: "int \<Rightarrow> ChatMessage list \<Rightarrow> ChatMessage list list \<Rightarrow> ChatMessage list \<Rightarrow> int
    \<Rightarrow> ChatMessage list list" where
  "split_loop maxTokensPerChunk [] chunks current currentTokens =
     (if length current > 0 then chunks @ [current] else chunks)"
| "split_loop maxTokensPerChunk (m # ms) chunks current currentTokens =
     (let tokens = estimateTokens (line m) in
      if currentTokens + tokens > maxTokensPerChunk \<and> length current > 0
      then split_loop maxTokensPerChunk ms (chunks @ [current]) [m] tokens
      else split_loop maxTokensPerChunk ms chunks (current @ [m]) (currentTokens + tokens))"

definition splitMessagesIntoChunks :: "ChatMessage list \<Rightarrow> int \<Rightarrow> ChatMessage list list" where
  "splitMessagesIntoChunks msgs maxTokensPerChunk =
     (if length msgs = 0 then [] else split_loop maxTokensPerChunk msgs [] [] 0)"

text \<open>The token count the chunker tracks for a chunk: the sum of the estimates of its lines.\<close>

definition chunk_tokens :: "ChatMessage list \<Rightarrow> int" where
  "chunk_tokens c = sum_list (map (\<lambda>m. estimateTokens (line m)) c)"

text \<open>
  The path \<^verbatim>\<open>SummarizeChat\<close> takes: no call for an empty input, one call on the whole
  prompt when the estimate fits the client's budget, otherwise one call per chunk.
\<close>

datatype summarize_path = NoCall | SingleCall runes | ChunkedCalls "ChatMessage list list"

definition SummarizeChat_path :: "Client \<Rightarrow> ChatMessage list \<Rightarrow> summarize_path" where
  "SummarizeChat_path c messages =
     (if length messages = 0 then NoCall
      else let chatText = messagesToPromptText messages;
               tokens = estimateTokens chatText
           in if tokens \<le> maxInputTokens c then SingleCall chatText
              else ChunkedCalls (splitMessagesIntoChunks messages (maxInputTokens c)))"


section \<open>internal/llm: topic merger\<close>

text \<open>
  The JSON types of the summarizer's reply. The fields carry their JSON names; the Go
  names \<^verbatim>\<open>SenderName\<close>, \<^verbatim>\<open>Title\<close>, ... are used by other records below.
\<close>

record topicSubItemJSON =
  sender_name :: string
  description :: string
  message_ids :: "int list"

record topicItemJSON =
  title :: string
  items :: "topicSubItemJSON list"

record topicsSummaryJSON =
  topics :: "topicItemJSON list"

text \<open>
  \<^verbatim>\<open>for i, x := range xs { m[key(x)] = i }\<close>: the index maps \<open>oldTopicMap\<close> and
  \<open>oldItemMap\<close>. A later element with the same key overwrites the earlier index.
\<close>

fun index_loop :: "('a \<Rightarrow> 'k) \<Rightarrow> nat \<Rightarrow> 'a list \<Rightarrow> ('k \<rightharpoonup> nat) \<Rightarrow> ('k \<rightharpoonup> nat)" where
  "index_loop key i [] m = m"
| "index_loop key i (x # xs) m = index_loop key (i + 1) xs (m(key x \<mapsto> i))"

text \<open>
  \<^verbatim>\<open>mergeMessageIDs\<close>. The Go map \<^verbatim>\<open>seen\<close> is a total function to \<open>bool\<close>: reading
  a missing key gives \<open>False\<close>, and \<^verbatim>\<open>delete\<close> resets the key to \<open>False\<close>.
\<close>

definition mark_seen :: "int \<Rightarrow> (int \<Rightarrow> bool) \<Rightarrow> (int \<Rightarrow> bool)" where
  "mark_seen msgID seen = seen(msgID := True)"

definition take_seen :: "int \<Rightarrow> int list \<times> (int \<Rightarrow> bool) \<Rightarrow> int list \<times> (int \<Rightarrow> bool)" where
  "take_seen msgID st = (case st of (result, seen) \<Rightarrow>
     if seen msgID then (result @ [msgID], seen(msgID := False)) else (result, seen))"

definition mergeMessageIDs :: "int list \<Rightarrow> int list \<Rightarrow> int list" where
  "mergeMessageIDs a b =
     (let seen = fold mark_seen a (\<lambda>_. False);
          seen = fold mark_seen b seen;
          st = fold take_seen a ([], seen);
          st = fold take_seen b st
      in fst st)"

text \<open>
  One iteration of the loop over \<^verbatim>\<open>new.Items\<close> in \<^verbatim>\<open>mergeTopicItems\<close>. The index
  \<open>oldIdx\<close> comes from \<open>oldItemMap\<close> and is below the length of \<open>merged\<close> (lemma
  \<open>index_loop_sound\<close>), so the Go index expression does not panic.
\<close>

definition merge_item_step :: "(string \<rightharpoonup> nat) \<Rightarrow> topicSubItemJSON \<Rightarrow> topicSubItemJSON list
    \<Rightarrow> topicSubItemJSON list" where
  "merge_item_step oldItemMap newItem merged =
     (case oldItemMap (sender_name newItem) of
        Some oldIdx \<Rightarrow>
          (let mergedIDs = mergeMessageIDs (message_ids (merged ! oldIdx)) (message_ids newItem)
           in merged[oldIdx := \<lparr> sender_name = sender_name newItem,
                                 description = description newItem,
                                 message_ids = mergedIDs \<rparr>])
      | None \<Rightarrow> merged @ [newItem])"

definition mergeTopicItems :: "topicItemJSON \<Rightarrow> topicItemJSON \<Rightarrow> topicItemJSON" where
  "mergeTopicItems old new =
     (let oldItemMap = index_loop sender_name 0 (items old) Map.empty;
          merged = [] @ items old
      in \<lparr> title = title new,
           items = fold (merge_item_step oldItemMap) (items new) merged \<rparr>)"

text \<open>One iteration of the loop over \<^verbatim>\<open>partial.Topics\<close> in \<^verbatim>\<open>mergeTopics\<close>.\<close>

definition merge_topic_step :: "(string \<rightharpoonup> nat) \<Rightarrow> topicItemJSON \<Rightarrow> topicItemJSON list
    \<Rightarrow> topicItemJSON list" where
  "merge_topic_step oldTopicMap pt result =
     (case oldTopicMap (title pt) of
        Some oldIdx \<Rightarrow> result[oldIdx := mergeTopicItems (result ! oldIdx) pt]
      | None \<Rightarrow> result @ [pt])"

text \<open>\<^verbatim>\<open>mergeTopics\<close>; a nil pointer is \<open>None\<close>.\<close>

definition mergeTopics :: "topicsSummaryJSON option \<Rightarrow> topicsSummaryJSON option
    \<Rightarrow> topicsSummaryJSON option" where
  "mergeTopics accumulated partial =
     (case accumulated of
        None \<Rightarrow> partial
      | Some acc \<Rightarrow>
          (case partial of
             None \<Rightarrow> accumulated
           | Some p \<Rightarrow>
               (let oldTopicMap = index_loop title 0 (topics acc) Map.empty;
                    result = topics acc
                in Some \<lparr> topics = fold (merge_topic_step oldTopicMap) (topics p) result \<rparr>)))"

text \<open>The topics behind a possibly nil pointer.\<close>

definition topics_of :: "topicsSummaryJSON option \<Rightarrow> topicItemJSON list" where
  "topics_of r = (case r of None \<Rightarrow> [] | Some x \<Rightarrow> topics x)"

text \<open>The invariant of \<^verbatim>\<open>SummaryResult\<close>: no title occurs twice.\<close>

definition titles_unique :: "topicsSummaryJSON option \<Rightarrow> bool" where
  "titles_unique r = (case r of None \<Rightarrow> True | Some x \<Rightarrow> distinct (map title (topics x)))"

text \<open>
  The union of two id sequences in first-seen order, in the spec's words: prior ids
  first, then the new ids in their order, each id once.
\<close>

primrec first_seen :: "int list \<Rightarrow> int list" where
  "first_seen [] = []"
| "first_seen (x # xs) = x # filter (\<lambda>y. y \<noteq> x) (first_seen xs)"


section \<open>internal/summarizer: display formatter\<close>

text \<open>
  \<^verbatim>\<open>strings.ReplaceAll(s, old, new)\<close> for a pattern \<open>old\<close> of one byte, the only way
  \<^verbatim>\<open>escapeHTML\<close> calls it: every occurrence of the byte is replaced, left to right.
\<close>

definition ReplaceAll :: "string \<Rightarrow> char \<Rightarrow> string \<Rightarrow> string" where
  "ReplaceAll s old new = concat (map (\<lambda>c. if c = old then new else [c]) s)"

definition escapeHTML :: "string \<Rightarrow> string" where
  "escapeHTML txt =
     (let result = ReplaceAll txt CHR ''&'' ''&amp;'';
          result = ReplaceAll result CHR ''<'' ''&lt;'';
          result = ReplaceAll result CHR ''>'' ''&gt;'';
          result = ReplaceAll result (CHR 0x22) ''&quot;''
      in result)"

text \<open>The types of the summarizer's result; message ids are \<^verbatim>\<open>int64\<close>.\<close>

record TopicSubItem =
  SenderName' :: string
  Description :: string
  MessageIDs :: "64 word list"

record TopicItem =
  Title :: string
  Items :: "TopicSubItem list"

record SummaryResult =
  Topics :: "TopicItem list"

text \<open>
  \<^verbatim>\<open>buildMessageLink\<close>: \<^verbatim>\<open>-chatID - 1000000000000\<close> in 64-bit two's complement, compared
  and printed as a signed number.
\<close>

definition buildMessageLink :: "64 word \<Rightarrow> 64 word \<Rightarrow> string" where
  "buildMessageLink chatID messageID =
     (let channelID = - chatID - 1000000000000
      in if sint channelID \<le> 0 then []
         else ''https://t.me/c/'' @ show_int (sint channelID) @ ''/'' @ show_int (sint messageID))"

text \<open>The bracketed links written after one item: one per message id that has a link.\<close>

definition format_links :: "64 word \<Rightarrow> 64 word list \<Rightarrow> string" where
  "format_links chatID msgIDs =
     concat (map (\<lambda>msgID.
        (let link = buildMessageLink chatID msgID
         in if link \<noteq> [] then '' [<a href='' @ [CHR 0x22] @ escapeHTML link @ [CHR 0x22] @ ''>link</a>]''
            else [])) msgIDs)"

definition format_item :: "64 word \<Rightarrow> TopicSubItem \<Rightarrow> string" where
  "format_item chatID item =
     ''- <b>'' @ escapeHTML (SenderName' item) @ ''</b> '' @ escapeHTML (Description item)
     @ format_links chatID (MessageIDs item) @ [CHR 0x0A]"

text \<open>The loop over \<^verbatim>\<open>result.Topics\<close>; \<open>i\<close> is the loop index.\<close>

fun format_topics :: "64 word \<Rightarrow> nat \<Rightarrow> TopicItem list \<Rightarrow> string" where
  "format_topics chatID i [] = []"
| "format_topics chatID i (topic # rest) =
     ([CHR 0x0A] @ show_int (int i + 1) @ ''. '' @ escapeHTML (Title topic) @ [CHR 0x0A])
     @ concat (map (format_item chatID) (Items topic))
     @ format_topics chatID (i + 1) rest"

text \<open>
  The two header lines, with the UTF-8 bytes of the emoji and the Chinese words written
  out.
\<close>

definition header_title :: string where
  "header_title = [CHR 0xF0, CHR 0x9F, CHR 0x93, CHR 0x8A] @ '' <b>''
     @ [CHR 0xE7, CHR 0xBE, CHR 0xA4, CHR 0xE7, CHR 0xBB, CHR 0x84,
        CHR 0xE6, CHR 0x80, CHR 0xBB, CHR 0xE7, CHR 0xBB, CHR 0x93]
     @ ''</b>'' @ [CHR 0x0A]"

definition header_dates :: "string \<Rightarrow> string \<Rightarrow> string" where
  "header_dates startDate endDate =
     [CHR 0xF0, CHR 0x9F, CHR 0x93, CHR 0x85] @ '' '' @ escapeHTML startDate
     @ '' '' @ [CHR 0xE8, CHR 0x87, CHR 0xB3] @ '' '' @ escapeHTML endDate @ '' (UTC)'' @ [CHR 0x0A]"

definition FormatSummaryForDisplay :: "SummaryResult option \<Rightarrow> 64 word \<Rightarrow> string \<Rightarrow> string \<Rightarrow> string" where
  "FormatSummaryForDisplay result chatID startDate endDate =
     (case result of
        None \<Rightarrow> []
      | Some r \<Rightarrow>
          if length (Topics r) = 0 then []
          else header_title @ header_dates startDate endDate @ format_topics chatID 0 (Topics r))"

text \<open>
  The escaping of one character in the spec's words, for the four characters the source
  names: \<open>&\<close>, \<open><\<close>, \<open>>\<close> and the double quote.
\<close>

definition escape_char :: "char \<Rightarrow> string" where
  "escape_char c =
     (if c = CHR ''&'' then ''&amp;''
      else if c = CHR ''<'' then ''&lt;''
      else if c = CHR ''>'' then ''&gt;''
      else if c = CHR 0x22 then ''&quot;''
      else [c])"

text \<open>
  Every \<open><\<close> of a text opens one of the tags of the template: it is followed by \<open>b\<close>,
  \<open>/\<close> or \<open>a\<close>.
\<close>

fun tags_only :: "string \<Rightarrow> bool" where
  "tags_only [] = True"
| "tags_only [c] = (c \<noteq> CHR ''<'')"
| "tags_only (c # d # cs) =
     ((c \<noteq> CHR ''<'' \<or> d = CHR ''b'' \<or> d = CHR ''/'' \<or> d = CHR ''a'') \<and> tags_only (d # cs))"

section \<open>Time\<close>

text \<open>
  A \<^verbatim>\<open>time.Time\<close> is an instant, in nanoseconds since the Unix epoch. The scheduler works
  in UTC throughout (\<^verbatim>\<open>locUTC\<close>), where a calendar day is exactly 86400 seconds (Go's
  clock has no leap seconds): \<^verbatim>\<open>t.AddDate(0, 0, d)\<close> moves an instant by \<open>d\<close> days, and
  \<^verbatim>\<open>time.Date(t.Year(), t.Month(), t.Day(), 0, 0, 0, 0, locUTC)\<close> is the start of the UTC
  day of \<open>t\<close>.
\<close>

type_synonym instant = int

definition day :: int where
  "day = 86400 * 1000000000"

definition AddDate_days :: "instant \<Rightarrow> int \<Rightarrow> instant" where
  "AddDate_days t d = t + d * day"

definition start_of_day :: "instant \<Rightarrow> instant" where
  "start_of_day t = t - t mod day"

section \<open>internal/model and internal/scheduler: state and environment\<close>

datatype task_status = StatusPending | StatusProcessing | StatusCompleted | StatusFailed

datatype summarize_error = FetchFailed | LLMFailed | ParseFailed

text \<open>
  The errors the scheduler sees: \<open>Cancelled\<close> is the "task cancelled" error returned at a
  cancel check; \<open>SummaryFailed\<close> wraps the last error of \<^verbatim>\<open>SummarizeRange\<close> after the
  retries; the other three come from the store.
\<close>

datatype error = Cancelled | SummaryFailed int summarize_error
  | ContextCanceled | DatabaseFault | NotFound

text \<open>
  The rows of the \<^verbatim>\<open>tasks\<close> and \<^verbatim>\<open>messages\<close> tables. An optional string column reads
  as the empty string when it is NULL; \<open>ErrorMessage\<close> holds the error whose text the source
  stores.
\<close>

record Task =
  ID :: int
  ChatID :: "64 word"
  StartTime :: instant
  EndTime :: instant
  Status :: task_status
  CompletedAt :: "instant option"
  ErrorMessage :: "error option"
  SummaryContent :: string

record Message =
  Message_MessageID :: "64 word"
  Message_ChatID :: "64 word"
  Message_SenderID :: "64 word"
  Message_SenderName :: string
  Message_Text :: string
  SentAt :: instant

text \<open>\<^verbatim>\<open>config.Summary\<close>, the fields the scheduler reads.\<close>

record Summary =
  RetentionDays :: int
  RangeDays :: int
  RetryTimes :: int
  RetryInterval :: int

text \<open>What the scheduler does to the outside, in order.\<close>

datatype event =
    EvSummarize "64 word" instant instant
  | EvNotify string "64 word"
  | EvSleep int

text \<open>
  The mutable state: both tables, a step counter that advances at every store statement,
  summarizer call, notifier call and sleep, and the trace of outside calls.
\<close>

record world =
  tasks :: "int \<rightharpoonup> Task"
  task_order :: "int list"
  messages :: "Message list"
  clock :: nat
  trace :: "event list"

text \<open>
  The environment, fixed in advance and indexed by the step counter: the step at which
  \<^verbatim>\<open>Stop\<close> cancels the context (if ever), the steps at which the database fails, the
  outcome of a notifier call and of a \<^verbatim>\<open>SummarizeRange\<close> call made at a step, the wall
  clock, and the rendering \<^verbatim>\<open>Format("2006-01-02")\<close> of a date.
\<close>

record env =
  cancel_at :: "nat option"
  db_fault :: "nat \<Rightarrow> bool"
  notify_ok :: "nat \<Rightarrow> bool"
  summarize_result :: "nat \<Rightarrow> summarize_error + SummaryResult option"
  now_at :: "nat \<Rightarrow> instant"
  format_date :: "instant \<Rightarrow> string"

text \<open>\<^verbatim>\<open>case <-ctx.Done()\<close>: the context is cancelled from step \<open>cancel_at\<close> on, for good.\<close>

definition ctx_done :: "env \<Rightarrow> world \<Rightarrow> bool" where
  "ctx_done e w = (case cancel_at e of None \<Rightarrow> False | Some c \<Rightarrow> c \<le> clock w)"

definition tick :: "world \<Rightarrow> world" where
  "tick w = w\<lparr>clock := clock w + 1\<rparr>"

definition time_Now :: "env \<Rightarrow> world \<Rightarrow> instant" where
  "time_Now e w = now_at e (clock w)"

text \<open>
  Modelled from the library contract (the client generated by ent is not among the
  sources): \<^verbatim>\<open>UpdateOneID(id)...Exec(ctx)\<close> goes through \<^verbatim>\<open>database/sql\<close>, which returns
  \<^verbatim>\<open>ctx.Err()\<close> without executing anything when the context is already cancelled;
  otherwise the statement fails when the database does, or with a not-found error when no
  row has the id, and else updates that one row.
\<close>

definition Exec :: "env \<Rightarrow> int \<Rightarrow> (Task \<Rightarrow> Task) \<Rightarrow> world \<Rightarrow> error option \<times> world" where
  "Exec e taskID upd w =
     (if ctx_done e w then (Some ContextCanceled, tick w)
      else if db_fault e (clock w) then (Some DatabaseFault, tick w)
      else case tasks w taskID of
             None \<Rightarrow> (Some NotFound, tick w)
           | Some t \<Rightarrow> (None, tick (w\<lparr>tasks := (tasks w)(taskID \<mapsto> upd t)\<rparr>)))"

subsection \<open>TaskModel and MessageModel\<close>

definition UpdateTaskStatus :: "env \<Rightarrow> int \<Rightarrow> task_status \<Rightarrow> error option \<Rightarrow> world
    \<Rightarrow> error option \<times> world" where
  "UpdateTaskStatus e taskID status errorMsg w =
     Exec e taskID
       (\<lambda>t. let t = t\<lparr>Status := status\<rparr>;
                t = (if status = StatusCompleted then t\<lparr>CompletedAt := Some (time_Now e w)\<rparr> else t);
                t = (case errorMsg of Some m \<Rightarrow> t\<lparr>ErrorMessage := Some m\<rparr> | None \<Rightarrow> t)
            in t) w"

definition MarkTaskCompleted :: "env \<Rightarrow> int \<Rightarrow> world \<Rightarrow> error option \<times> world" where
  "MarkTaskCompleted e taskID w = UpdateTaskStatus e taskID StatusCompleted None w"

definition MarkTaskFailed :: "env \<Rightarrow> int \<Rightarrow> error \<Rightarrow> world \<Rightarrow> error option \<times> world" where
  "MarkTaskFailed e taskID errorMsg w = UpdateTaskStatus e taskID StatusFailed (Some errorMsg) w"

definition ResetTaskToPending :: "env \<Rightarrow> int \<Rightarrow> world \<Rightarrow> error option \<times> world" where
  "ResetTaskToPending e taskID w =
     Exec e taskID (\<lambda>t. t\<lparr>Status := StatusPending, CompletedAt := None, ErrorMessage := None\<rparr>) w"

definition SetSummaryContent :: "env \<Rightarrow> int \<Rightarrow> string \<Rightarrow> world \<Rightarrow> error option \<times> world" where
  "SetSummaryContent e taskID content w = Exec e taskID (\<lambda>t. t\<lparr>SummaryContent := content\<rparr>) w"

definition ClearSummaryContent :: "env \<Rightarrow> int \<Rightarrow> world \<Rightarrow> error option \<times> world" where
  "ClearSummaryContent e taskID w = Exec e taskID (\<lambda>t. t\<lparr>SummaryContent := []\<rparr>) w"

text \<open>
  \<^verbatim>\<open>GetPendingOrProcessingTasks\<close>: the rows whose status is pending or processing, in
  creation order; the query fails like a statement does.
\<close>

definition GetPendingOrProcessingTasks :: "env \<Rightarrow> world \<Rightarrow> (error + Task list) \<times> world" where
  "GetPendingOrProcessingTasks e w =
     (if ctx_done e w then (Inl ContextCanceled, tick w)
      else if db_fault e (clock w) then (Inl DatabaseFault, tick w)
      else (Inr (filter (\<lambda>t. Status t = StatusPending \<or> Status t = StatusProcessing)
                   (List.map_filter (tasks w) (task_order w))), tick w))"

text \<open>\<^verbatim>\<open>DeleteBefore\<close>: deletes the messages sent before the cutoff and returns their number.\<close>

definition DeleteBefore :: "env \<Rightarrow> instant \<Rightarrow> world \<Rightarrow> (error + nat) \<times> world" where
  "DeleteBefore e cutoffDate w =
     (if ctx_done e w then (Inl ContextCanceled, tick w)
      else if db_fault e (clock w) then (Inl DatabaseFault, tick w)
      else (Inr (length (filter (\<lambda>m. SentAt m < cutoffDate) (messages w))),
            tick (w\<lparr>messages := filter (\<lambda>m. \<not> SentAt m < cutoffDate) (messages w)\<rparr>)))"

subsection \<open>Outside calls\<close>

text \<open>
  \<^verbatim>\<open>s.notifier.Notify\<close> returns whether it succeeded; \<^verbatim>\<open>s.summarizer.SummarizeRange\<close>
  returns an error, no result (no messages in the range) or a result; a retry sleep races
  the timer against the cancel signal and returns whether the signal won.
\<close>

definition Notify :: "env \<Rightarrow> string \<Rightarrow> 64 word \<Rightarrow> world \<Rightarrow> bool \<times> world" where
  "Notify e summary chatID w =
     (notify_ok e (clock w), tick (w\<lparr>trace := trace w @ [EvNotify summary chatID]\<rparr>))"

definition SummarizeRange :: "env \<Rightarrow> 64 word \<Rightarrow> instant \<Rightarrow> instant \<Rightarrow> world
    \<Rightarrow> (summarize_error + SummaryResult option) \<times> world" where
  "SummarizeRange e chatID startTime endTime w =
     (summarize_result e (clock w),
      tick (w\<lparr>trace := trace w @ [EvSummarize chatID startTime endTime]\<rparr>))"

definition sleep_or_cancel :: "env \<Rightarrow> int \<Rightarrow> world \<Rightarrow> bool \<times> world" where
  "sleep_or_cancel e d w =
     (let w' = tick (w\<lparr>trace := trace w @ [EvSleep d]\<rparr>) in (ctx_done e w', w'))"

subsection \<open>Scheduler\<close>

definition retryTimes :: "Summary \<Rightarrow> int" where
  "retryTimes cfg = (if RetryTimes cfg \<le> 0 then 3 else RetryTimes cfg)"

definition retryInterval :: "Summary \<Rightarrow> int" where
  "retryInterval cfg =
     (if RetryInterval cfg * 1000000000 \<le> 0 then 60 * 1000000000 else RetryInterval cfg * 1000000000)"

definition notifyRetryTimes :: int where
  "notifyRetryTimes = 2"

text \<open>
  The retry loop of \<^verbatim>\<open>generateSummaryForTask\<close>. \<open>cur\<close> holds the variables \<^verbatim>\<open>result\<close> and
  \<^verbatim>\<open>err\<close>; the loop returns \<open>Inl Cancelled\<close> from a cancel check and otherwise what the
  variables hold when the loop ends.
\<close>

function summarize_loop :: "env \<Rightarrow> Summary \<Rightarrow> 64 word \<Rightarrow> instant \<Rightarrow> instant \<Rightarrow> int
    \<Rightarrow> summarize_error + SummaryResult option \<Rightarrow> world
    \<Rightarrow> (error + (summarize_error + SummaryResult option)) \<times> world" where
  "summarize_loop e cfg chatID startTime endTime attempt cur w =
     (if attempt \<le> retryTimes cfg then
        (if ctx_done e w then (Inl Cancelled, w)
         else case SummarizeRange e chatID startTime endTime w of (r, w1) \<Rightarrow>
           (case r of
              Inr res \<Rightarrow> (Inr (Inr res), w1)
            | Inl err \<Rightarrow>
                if attempt < retryTimes cfg then
                  (case sleep_or_cancel e (retryInterval cfg) w1 of (cancelled, w2) \<Rightarrow>
                     if cancelled then (Inl Cancelled, w2)
                     else summarize_loop e cfg chatID startTime endTime (attempt + 1) (Inl err) w2)
                else summarize_loop e cfg chatID startTime endTime (attempt + 1) (Inl err) w1))
      else (Inr cur, w))"
  by pat_completeness auto
termination
  by (relation "measure (\<lambda>(e, cfg, chatID, startTime, endTime, attempt, cur, w).
        nat (retryTimes cfg + 1 - attempt))") auto

declare summarize_loop.simps [simp del]

definition generateSummaryForTask :: "env \<Rightarrow> Summary \<Rightarrow> 64 word \<Rightarrow> instant \<Rightarrow> instant \<Rightarrow> world
    \<Rightarrow> (error + string) \<times> world" where
  "generateSummaryForTask e cfg chatID startTime endTime w =
     (let startDate = format_date e startTime;
          endDate = format_date e (AddDate_days endTime (- 1))
      in case summarize_loop e cfg chatID startTime endTime 1 (Inr None) w of
           (Inl c, w') \<Rightarrow> (Inl c, w')
         | (Inr (Inl err), w') \<Rightarrow> (Inl (SummaryFailed (retryTimes cfg) err), w')
         | (Inr (Inr None), w') \<Rightarrow> (Inr [], w')
         | (Inr (Inr (Some result)), w') \<Rightarrow>
             (let summary = FormatSummaryForDisplay (Some result) chatID startDate endDate
              in if summary = [] then (Inr [], w') else (Inr summary, w')))"

text \<open>
  The loop of \<^verbatim>\<open>sendTaskNotification\<close>; the result is the pair \<^verbatim>\<open>(sent, err)\<close>.
\<close>

function notify_loop :: "env \<Rightarrow> Summary \<Rightarrow> string \<Rightarrow> 64 word \<Rightarrow> int \<Rightarrow> world
    \<Rightarrow> (bool \<times> error option) \<times> world" where
  "notify_loop e cfg summary chatID attempt w =
     (if attempt \<le> notifyRetryTimes then
        (if ctx_done e w then ((False, Some Cancelled), w)
         else case Notify e summary chatID w of (ok, w1) \<Rightarrow>
           if ok then ((True, None), w1)
           else if attempt < notifyRetryTimes then
             (case sleep_or_cancel e (retryInterval cfg div 2) w1 of (cancelled, w2) \<Rightarrow>
                if cancelled then ((False, Some Cancelled), w2)
                else notify_loop e cfg summary chatID (attempt + 1) w2)
           else notify_loop e cfg summary chatID (attempt + 1) w1)
      else ((False, None), w))"
  by pat_completeness auto
termination
  by (relation "measure (\<lambda>(e, cfg, summary, chatID, attempt, w).
        nat (notifyRetryTimes + 1 - attempt))") auto

declare notify_loop.simps [simp del]

definition sendTaskNotification :: "env \<Rightarrow> Summary \<Rightarrow> string \<Rightarrow> 64 word \<Rightarrow> world
    \<Rightarrow> (bool \<times> error option) \<times> world" where
  "sendTaskNotification e cfg summary chatID w = notify_loop e cfg summary chatID 1 w"

text \<open>
  \<^verbatim>\<open>processTask\<close>; the result is the returned error, \<open>None\<close> for \<^verbatim>\<open>nil\<close>. A failure to
  save or to clear the summary is logged or ignored, as in the source.
\<close>

definition processTask :: "env \<Rightarrow> Summary \<Rightarrow> 64 word \<Rightarrow> instant \<Rightarrow> instant \<Rightarrow> int \<Rightarrow> world
    \<Rightarrow> error option \<times> world" where
  "processTask e cfg chatID startTime endTime taskID w =
     (case generateSummaryForTask e cfg chatID startTime endTime w of
        (Inl err, w1) \<Rightarrow> (Some err, w1)
      | (Inr summary, w1) \<Rightarrow>
          if summary = [] then (None, w1)
          else
            (let w2 = (if taskID > 0 then snd (SetSummaryContent e taskID summary w1) else w1)
             in case sendTaskNotification e cfg summary chatID w2 of
                  ((sent, Some err), w3) \<Rightarrow> (Some err, w3)
                | ((sent, None), w3) \<Rightarrow>
                    (None, if sent \<and> taskID > 0 then snd (ClearSummaryContent e taskID w3) else w3)))"

text \<open>
  The body of the loop over \<^verbatim>\<open>tasksToProcess\<close> in \<^verbatim>\<open>executeDailySummaryForRange\<close>, after
  its cancel check: the new state and the increments of \<^verbatim>\<open>successCount\<close> and
  \<^verbatim>\<open>failCount\<close>.
\<close>

definition process_one :: "env \<Rightarrow> Summary \<Rightarrow> Task \<Rightarrow> world \<Rightarrow> (int \<times> int) \<times> world" where
  "process_one e cfg taskRecord w =
     (case UpdateTaskStatus e (ID taskRecord) StatusProcessing None w of
        (Some err, w1) \<Rightarrow> ((0, 1), w1)
      | (None, w1) \<Rightarrow>
          (case processTask e cfg (ChatID taskRecord) (StartTime taskRecord) (EndTime taskRecord)
                  (ID taskRecord) w1 of
             (Some err, w2) \<Rightarrow> ((0, 1), snd (MarkTaskFailed e (ID taskRecord) err w2))
           | (None, w2) \<Rightarrow>
               (case MarkTaskCompleted e (ID taskRecord) w2 of
                  (None, w3) \<Rightarrow> ((1, 0), w3)
                | (Some err, w3) \<Rightarrow> ((0, 0), w3))))"

fun process_tasks :: "env \<Rightarrow> Summary \<Rightarrow> Task list \<Rightarrow> int \<times> int \<Rightarrow> world
    \<Rightarrow> (error + int \<times> int) \<times> world" where
  "process_tasks e cfg [] counts w = (Inr counts, w)"
| "process_tasks e cfg (taskRecord # rest) counts w =
     (if ctx_done e w then (Inl Cancelled, w)
      else case process_one e cfg taskRecord w of
             ((ds, df), w') \<Rightarrow> process_tasks e cfg rest (fst counts + ds, snd counts + df) w')"

text \<open>
  The body of the loop of \<^verbatim>\<open>recoverPendingTasks\<close>, after its cancel check. \<open>t\<close> is the row as
  the query at the start of the recovery returned it.
\<close>

definition recover_one :: "env \<Rightarrow> Summary \<Rightarrow> instant \<Rightarrow> Task \<Rightarrow> world \<Rightarrow> world" where
  "recover_one e cfg cutoffTime t w =
     (if StartTime t < cutoffTime then w
      else case ResetTaskToPending e (ID t) w of
        (Some err, w1) \<Rightarrow> w1
      | (None, w1) \<Rightarrow>
          (case UpdateTaskStatus e (ID t) StatusProcessing None w1 of
             (Some err, w2) \<Rightarrow> w2
           | (None, w2) \<Rightarrow>
               if SummaryContent t \<noteq> [] then
                 (case sendTaskNotification e cfg (SummaryContent t) (ChatID t) w2 of
                    ((sent, Some sendErr), w3) \<Rightarrow> snd (MarkTaskFailed e (ID t) sendErr w3)
                  | ((sent, None), w3) \<Rightarrow>
                      (let w4 = (if sent then snd (ClearSummaryContent e (ID t) w3) else w3)
                       in snd (MarkTaskCompleted e (ID t) w4)))
               else
                 (case processTask e cfg (ChatID t) (StartTime t) (EndTime t) (ID t) w2 of
                    (Some err, w3) \<Rightarrow> snd (MarkTaskFailed e (ID t) err w3)
                  | (None, w3) \<Rightarrow> snd (MarkTaskCompleted e (ID t) w3))))"

fun recover_loop :: "env \<Rightarrow> Summary \<Rightarrow> instant \<Rightarrow> Task list \<Rightarrow> world \<Rightarrow> world" where
  "recover_loop e cfg cutoffTime [] w = w"
| "recover_loop e cfg cutoffTime (t # rest) w =
     (if ctx_done e w then w
      else recover_loop e cfg cutoffTime rest (recover_one e cfg cutoffTime t w))"

definition recoverPendingTasks :: "env \<Rightarrow> Summary \<Rightarrow> world \<Rightarrow> world" where
  "recoverPendingTasks e cfg w =
     (case GetPendingOrProcessingTasks e w of
        (Inl err, w1) \<Rightarrow> w1
      | (Inr ts, w1) \<Rightarrow>
          if length ts = 0 then w1
          else recover_loop e cfg (AddDate_days (time_Now e w1) (- 7)) ts w1)"

text \<open>\<^verbatim>\<open>cleanupMessages\<close>: the error of the delete is logged and dropped.\<close>

definition cleanup_cutoff :: "Summary \<Rightarrow> instant \<Rightarrow> instant" where
  "cleanup_cutoff cfg now = start_of_day (AddDate_days now (- RetentionDays cfg - 1))"

definition cleanupMessages :: "env \<Rightarrow> Summary \<Rightarrow> world \<Rightarrow> world" where
  "cleanupMessages e cfg w = snd (DeleteBefore e (cleanup_cutoff cfg (time_Now e w)) w)"

subsection \<open>Observations on a state\<close>

text \<open>
  The number of \<^verbatim>\<open>SummarizeRange\<close> calls made so far (each one is a run of the LLM
  summarizer), the number of notifier calls, and the status column of the task table.
\<close>

fun is_summarize :: "event \<Rightarrow> bool" where
  "is_summarize (EvSummarize chatID startTime endTime) = True"
| "is_summarize (EvNotify summary chatID) = False"
| "is_summarize (EvSleep d) = False"

fun is_notify :: "event \<Rightarrow> bool" where
  "is_notify (EvSummarize chatID startTime endTime) = False"
| "is_notify (EvNotify summary chatID) = True"
| "is_notify (EvSleep d) = False"

definition summarize_calls :: "world \<Rightarrow> nat" where
  "summarize_calls w = length (filter is_summarize (trace w))"

definition notify_calls :: "world \<Rightarrow> nat" where
  "notify_calls w = length (filter is_notify (trace w))"

definition statuses :: "world \<Rightarrow> int \<rightharpoonup> task_status" where
  "statuses w = (\<lambda>i. map_option Status (tasks w i))"

section \<open>Example inputs\<close>

definition msgA :: ChatMessage where
  "msgA = \<lparr>MessageID = 1, SenderID = 1, SenderName = text_of ''a'', Text = text_of ''x''\<rparr>"

definition msgB :: ChatMessage where
  "msgB = \<lparr>MessageID = 2, SenderID = 1, SenderName = text_of ''a'', Text = text_of ''y z''\<rparr>"

definition itemX_old :: topicSubItemJSON where
  "itemX_old = \<lparr>sender_name = ''X'', description = ''d1'', message_ids = [1]\<rparr>"

definition itemX_new :: topicSubItemJSON where
  "itemX_new = \<lparr>sender_name = ''X'', description = ''d1 refined'', message_ids = [1, 2]\<rparr>"

definition itemY :: topicSubItemJSON where
  "itemY = \<lparr>sender_name = ''Y'', description = ''d2'', message_ids = [3]\<rparr>"

definition itemZ :: topicSubItemJSON where
  "itemZ = \<lparr>sender_name = ''Z'', description = ''d3'', message_ids = [4]\<rparr>"

definition topicA_old :: topicItemJSON where
  "topicA_old = \<lparr>title = ''A'', items = [itemX_old]\<rparr>"

definition topicA_new :: topicItemJSON where
  "topicA_new = \<lparr>title = ''A'', items = [itemX_new, itemY]\<rparr>"

definition topicB :: topicItemJSON where
  "topicB = \<lparr>title = ''B'', items = [itemZ]\<rparr>"

definition chunk1_reply :: topicsSummaryJSON where
  "chunk1_reply = \<lparr>topics = [topicA_old]\<rparr>"

definition chunk2_reply :: topicsSummaryJSON where
  "chunk2_reply = \<lparr>topics = [topicA_new, topicB]\<rparr>"

definition repeated_reply :: topicsSummaryJSON where
  "repeated_reply = \<lparr>topics = [topicB, topicB]\<rparr>"

definition script_result :: SummaryResult where
  "script_result = \<lparr>Topics = [\<lparr>Title = ''Q&A'',
      Items = [\<lparr>SenderName' = ''<script>'', Description = ''x'', MessageIDs = [7]\<rparr>]\<rparr>]\<rparr>"

definition apostrophe_result :: SummaryResult where
  "apostrophe_result = \<lparr>Topics = [\<lparr>Title = ''T'',
      Items = [\<lparr>SenderName' = [CHR ''O'', CHR 0x27, CHR ''B''], Description = ''x'', MessageIDs = []\<rparr>]\<rparr>]\<rparr>"

definition quiet_env :: env where
  "quiet_env = \<lparr>cancel_at = None, db_fault = (\<lambda>_. False), notify_ok = (\<lambda>_. False),
     summarize_result = (\<lambda>_. Inr None), now_at = (\<lambda>_. 10 * day + 18000000000000),
     format_date = (\<lambda>_. ''2025-02-10'')\<rparr>"

definition message_at :: "instant \<Rightarrow> Message" where
  "message_at t = \<lparr>Message_MessageID = 1, Message_ChatID = 5, Message_SenderID = 9,
     Message_SenderName = ''A'', Message_Text = ''hi'', SentAt = t\<rparr>"

definition store_three :: world where
  "store_three = \<lparr>tasks = Map.empty, task_order = [],
     messages = [message_at (6 * day + 1), message_at (7 * day), message_at (8 * day)],
     clock = 0, trace = []\<rparr>"

definition keep_two :: Summary where
  "keep_two = \<lparr>RetentionDays = 2, RangeDays = 1, RetryTimes = 3, RetryInterval = 60\<rparr>"

definition pending_delivery :: Task where
  "pending_delivery = \<lparr>ID = 1, ChatID = - 1001427755127, StartTime = 9 * day, EndTime = 10 * day,
     Status = StatusProcessing, CompletedAt = None, ErrorMessage = None,
     SummaryContent = ''summary''\<rparr>"

definition fresh_task :: Task where
  "fresh_task = \<lparr>ID = 1, ChatID = - 1001427755127, StartTime = 9 * day, EndTime = 10 * day,
     Status = StatusPending, CompletedAt = None, ErrorMessage = None, SummaryContent = []\<rparr>"

definition store_of :: "Task \<Rightarrow> world" where
  "store_of t = \<lparr>tasks = [ID t \<mapsto> t], task_order = [ID t], messages = [], clock = 0, trace = []\<rparr>"

definition delivering_env :: env where
  "delivering_env = quiet_env\<lparr>notify_ok := (\<lambda>_. True)\<rparr>"

definition summarizing_env :: env where
  "summarizing_env = quiet_env\<lparr>summarize_result := (\<lambda>_. Inr (Some script_result))\<rparr>"

definition stopping_env :: "nat \<Rightarrow> env" where
  "stopping_env k = summarizing_env\<lparr>cancel_at := Some k\<rparr>"

definition failing_env :: "nat \<Rightarrow> env" where
  "failing_env k = quiet_env\<lparr>summarize_result := (\<lambda>_. Inl LLMFailed), cancel_at := Some k\<rparr>"

definition stopped_run :: world where
  "stopped_run = snd (process_one (stopping_env 6) keep_two fresh_task (store_of fresh_task))"

(*THEOREMS*)

section \<open>Token estimator: properties\<close>

lemma fields_from_nonempty: "cur \<noteq> [] \<Longrightarrow> fields_from cur t \<noteq> []"
  by (induction t arbitrary: cur) auto

lemma fields_from_mono: "length (fields_from cur s) \<le> length (fields_from cur (s @ t))"
proof (induction s arbitrary: cur)
  case Nil
  show ?case using fields_from_nonempty[of cur t] by (cases "fields_from cur t") auto
next
  case (Cons r s)
  then show ?case by auto
qed

lemma count_runes_acc:
  "count_runes s (c, e) = (c + fst (count_runes s (0, 0)), e + snd (count_runes s (0, 0)))"
proof (induction s arbitrary: c e)
  case Nil
  show ?case by simp
next
  case (Cons r s)
  show ?case
    using Cons[of "c + 1" e] Cons[of c "e + 1"] Cons[of c e] Cons[of 1 0] Cons[of 0 1] by auto
qed

lemma count_runes_mono: "fst (count_runes s (0, 0)) \<le> fst (count_runes (s @ t) (0, 0))"
proof (induction s)
  case Nil
  show ?case by simp
next
  case (Cons r s)
  show ?case
    using Cons count_runes_acc[of s 1 0] count_runes_acc[of "s @ t" 1 0]
      count_runes_acc[of s 0 1] count_runes_acc[of "s @ t" 0 1] by auto
qed

lemma len_append_mono: "len s \<le> len (s @ t)"
  by (simp add: len_def)

lemma estimateTokens_append: "estimateTokens s \<le> estimateTokens (s @ t)"
proof -
  have a: "length (Fields s) \<le> length (Fields (s @ t))"
    unfolding Fields_def by (rule fields_from_mono)
  have b: "fst (count_runes s (0, 0)) \<le> fst (count_runes (s @ t) (0, 0))"
    by (rule count_runes_mono)
  have c: "int (len s) div 4 \<le> int (len (s @ t)) div 4"
    using len_append_mono[of s t] by (simp add: zdiv_mono1)
  have d: "(15 * int (fst (count_runes s (0, 0))) + 13 * int (length (Fields s))) div 10
        \<le> (15 * int (fst (count_runes (s @ t) (0, 0))) + 13 * int (length (Fields (s @ t)))) div 10"
    using a b by (intro zdiv_mono1) auto
  show ?thesis
    using c d unfolding estimateTokens_def Let_def by (auto split: prod.splits)
qed

lemma estimateTokens_nonneg: "0 \<le> estimateTokens s"
  unfolding estimateTokens_def Let_def by (auto split: prod.splits)

lemma estimateTokens_floor: "int (len s) div 4 \<le> estimateTokens s"
  unfolding estimateTokens_def Let_def by (auto split: prod.splits)

lemmas eval_text = text_of_def len_def utf8_width_def Fields_def IsSpace_def estimateTokens_def

text \<open>
  C10, as stated, also promises \<open>estimate s \<le> estimate t\<close> whenever \<open>s\<close> is merely shorter
  than \<open>t\<close>. The estimator counts whitespace-separated words, so a short text of many
  words outweighs a longer text of one word: \<^verbatim>\<open>"a b c d"\<close> (7 bytes) is estimated at 5
  tokens and \<^verbatim>\<open>"aaaaaaaa"\<close> (8 bytes) at 2.
\<close>

theorem estimateTokens_shorter_counterexample:
  "len (text_of ''a b c d'') < len (text_of ''aaaaaaaa'')
   \<and> \<not> estimateTokens (text_of ''a b c d'') \<le> estimateTokens (text_of ''aaaaaaaa'')"
  by (simp add: eval_text)

text \<open>
  C10 (amended): the token estimator returns an integer that is at least 0 and at least
  \<open>\<lfloor>len_bytes / 4\<rfloor>\<close>, and it is monotone under extension: if \<open>s\<close> is a prefix of \<open>t\<close>
  (as sequences of code points) then \<open>estimate s \<le> estimate t\<close>.
\<close>

theorem estimateTokens_monotone_prefix:
  "0 \<le> estimateTokens s
   \<and> int (len s) div 4 \<le> estimateTokens s
   \<and> (prefix s t \<longrightarrow> estimateTokens s \<le> estimateTokens t)"
proof -
  have "estimateTokens s \<le> estimateTokens t" if "prefix s t"
  proof -
    from that obtain u where "t = s @ u" by (auto simp: prefix_def)
    then show ?thesis by (simp add: estimateTokens_append)
  qed
  then show ?thesis
    by (simp add: estimateTokens_nonneg estimateTokens_floor)
qed

theorem estimateTokens_monotone_prefix_witness:
  "prefix (text_of ''ab'') (text_of ''ab cd'')
   \<and> estimateTokens (text_of ''ab'') \<le> estimateTokens (text_of ''ab cd'')
   \<and> int (len (text_of ''ab'')) div 4 \<le> estimateTokens (text_of ''ab'')"
  using estimateTokens_monotone_prefix [of "text_of ''ab''" "text_of ''ab cd''"]
  by (simp add: text_of_def)

section \<open>Chunker: properties\<close>

lemma split_loop_concat:
  "concat (split_loop k ms chunks cur ct) = concat chunks @ cur @ ms"
  by (induction ms arbitrary: chunks cur ct) (auto simp: Let_def)

lemma split_loop_bounded:
  assumes "\<forall>c \<in> set chunks. chunk_tokens c \<le> k \<or> length c = 1"
    and "ct = chunk_tokens cur"
    and "cur = [] \<or> chunk_tokens cur \<le> k \<or> length cur = 1"
  shows "\<forall>c \<in> set (split_loop k ms chunks cur ct). chunk_tokens c \<le> k \<or> length c = 1"
  using assms
proof (induction ms arbitrary: chunks cur ct)
  case Nil
  then show ?case by auto
next
  case (Cons m ms)
  show ?case
  proof (cases "ct + estimateTokens (line m) > k \<and> length cur > 0")
    case True
    have "\<forall>c\<in>set (split_loop k ms (chunks @ [cur]) [m] (estimateTokens (line m))).
            chunk_tokens c \<le> k \<or> length c = 1"
      using Cons.prems True by (intro Cons.IH) (auto simp: chunk_tokens_def)
    then show ?thesis using True by (simp add: Let_def)
  next
    case False
    have "\<forall>c\<in>set (split_loop k ms chunks (cur @ [m]) (ct + estimateTokens (line m))).
            chunk_tokens c \<le> k \<or> length c = 1"
      using Cons.prems False by (intro Cons.IH) (auto simp: chunk_tokens_def)
    then show ?thesis using False by (auto simp: Let_def)
  qed
qed

lemma line_msgA: "line msgA = [91, 97, 124, 49, 93, 32, 120]"
  by (simp add: msgA_def line_def show_int_def digits.simps digit_char_def text_of_def)

lemma estimate_line_msgA: "estimateTokens (line msgA) = 2"
  unfolding line_msgA by (simp add: eval_text)

lemma split_two_msgA: "splitMessagesIntoChunks [msgA, msgA] 4 = [[msgA, msgA]]"
  by (simp add: splitMessagesIntoChunks_def estimate_line_msgA)

lemma chunk_tokens_two_msgA: "chunk_tokens [msgA, msgA] = 4"
  by (simp add: chunk_tokens_def estimate_line_msgA)

lemma prompt_two_msgA:
  "messagesToPromptText [msgA, msgA]
     = [91, 97, 124, 49, 93, 32, 120, 10, 91, 97, 124, 49, 93, 32, 120]"
  by (simp add: messagesToPromptText_def line_msgA text_of_def)

lemma estimate_prompt_two_msgA: "estimateTokens (messagesToPromptText [msgA, msgA]) = 5"
  unfolding prompt_two_msgA by (simp add: eval_text)

text \<open>
  C3, as stated, bounds the estimated length of the rendered chunk. The chunker compares
  the budget with the sum of the estimates of the single lines, and the estimate of the
  joined text can exceed that sum (the estimator truncates once per call): the two
  messages \<^verbatim>\<open>[a|1] x\<close> and \<^verbatim>\<open>[a|1] x\<close> with budget 4 form one chunk whose lines sum to
  \<open>2 + 2 = 4\<close>, while the rendered chunk, the text \<^verbatim>\<open>SummarizeChat\<close> sends, is estimated
  at 5.
\<close>

theorem splitMessagesIntoChunks_rendered_counterexample:
  "splitMessagesIntoChunks [msgA, msgA] 4 = [[msgA, msgA]]
   \<and> \<not> estimateTokens (messagesToPromptText [msgA, msgA]) \<le> 4
   \<and> length [msgA, msgA] \<noteq> 1"
  by (simp add: split_two_msgA estimate_prompt_two_msgA)

text \<open>
  C3 (amended): for every message sequence and every budget \<open>k\<close>, the chunks of
  \<open>splitMessagesIntoChunks\<close> concatenate to exactly the input (order kept, nothing lost,
  nothing duplicated); for every chunk, either the sum of the estimates of its rendered
  lines (the quantity the chunker compares with the budget) is at most \<open>k\<close>, or the chunk
  consists of exactly one message; and the empty input yields the empty result.
\<close>

theorem splitMessagesIntoChunks_partition:
  "concat (splitMessagesIntoChunks msgs k) = msgs
   \<and> (\<forall>c \<in> set (splitMessagesIntoChunks msgs k). chunk_tokens c \<le> k \<or> length c = 1)
   \<and> splitMessagesIntoChunks [] k = []"
proof -
  have "\<forall>c \<in> set (split_loop k msgs [] [] 0). chunk_tokens c \<le> k \<or> length c = 1"
    by (rule split_loop_bounded) (auto simp: chunk_tokens_def)
  then show ?thesis
    by (simp add: splitMessagesIntoChunks_def split_loop_concat)
qed

lemma split_example: "splitMessagesIntoChunks [msgA, msgB, msgA] 4 = [[msgA], [msgB], [msgA]]"
  by (simp add: splitMessagesIntoChunks_def msgA_def msgB_def line_def Let_def show_int_def
      digits.simps digit_char_def eval_text)

theorem splitMessagesIntoChunks_partition_witness:
  "concat (splitMessagesIntoChunks [msgA, msgB, msgA] 4) = [msgA, msgB, msgA]
   \<and> splitMessagesIntoChunks [msgA, msgB, msgA] 4 = [[msgA], [msgB], [msgA]]
   \<and> length [msgA] = 1"
  using splitMessagesIntoChunks_partition [of "[msgA, msgB, msgA]" 4]
  by (simp add: split_example)

section \<open>Input budget: properties\<close>

text \<open>
  C9, as stated, gives the budget a floor of 6000. \<open>NewClient\<close> applies no floor: a context
  window of 4000 yields the budget 2000.
\<close>

theorem NewClient_floor_counterexample:
  "0 < MaxTokens \<lparr>MaxTokens = 4000\<rparr>
   \<and> maxInputTokens (NewClient \<lparr>MaxTokens = 4000\<rparr>) \<noteq> max (MaxTokens \<lparr>MaxTokens = 4000\<rparr> - 2000) 6000"
  by (simp add: NewClient_def)

text \<open>
  C9 (amended): for every configured context window \<open>MaxTokens > 0\<close> the input budget is
  \<open>MaxTokens - 2000\<close>, with no floor, and this budget decides between the single-call path
  (estimate of the whole prompt at most the budget) and the chunked path (chunks cut at
  the budget).
\<close>

theorem NewClient_budget:
  assumes "0 < MaxTokens cfg"
  shows "maxInputTokens (NewClient cfg) = MaxTokens cfg - 2000
    \<and> SummarizeChat_path (NewClient cfg) msgs =
        (if msgs = [] then NoCall
         else if estimateTokens (messagesToPromptText msgs) \<le> MaxTokens cfg - 2000
              then SingleCall (messagesToPromptText msgs)
              else ChunkedCalls (splitMessagesIntoChunks msgs (MaxTokens cfg - 2000)))"
  by (simp add: NewClient_def SummarizeChat_path_def Let_def)

theorem NewClient_budget_witness:
  "0 < MaxTokens \<lparr>MaxTokens = 16000\<rparr>
   \<and> maxInputTokens (NewClient \<lparr>MaxTokens = 16000\<rparr>) = 14000
   \<and> SummarizeChat_path (NewClient \<lparr>MaxTokens = 16000\<rparr>) [] = NoCall"
  using NewClient_budget [of "\<lparr>MaxTokens = 16000\<rparr>" "[]"]
  by simp

section \<open>Topic merger: properties\<close>


lemma distinct_first_seen: "distinct (first_seen xs)"
  by (induction xs) auto

lemma first_seen_distinct: "distinct xs \<Longrightarrow> first_seen xs = xs"
proof (induction xs)
  case Nil show ?case by simp
next
  case (Cons x xs)
  then have "filter (\<lambda>y. y \<noteq> x) xs = xs" by (auto intro: filter_True)
  with Cons show ?case by simp
qed




lemma index_loop_miss: "k \<notin> key ` set xs \<Longrightarrow> index_loop key i xs m k = m k"
  by (induction xs arbitrary: i m) auto

lemma index_loop_sound:
  "index_loop key i xs m k = Some j \<Longrightarrow>
     m k = Some j \<or> (i \<le> j \<and> j < i + length xs \<and> key (xs ! (j - i)) = k)"
proof (induction xs arbitrary: i m)
  case Nil
  then show ?case by simp
next
  case (Cons x xs)
  from Cons.prems have "index_loop key (i + 1) xs (m(key x \<mapsto> i)) k = Some j" by simp
  from Cons.IH[OF this]
  consider "(m(key x \<mapsto> i)) k = Some j" | "i + 1 \<le> j \<and> j < i + 1 + length xs \<and> key (xs ! (j - (i + 1))) = k"
    by blast
  then show ?case
  proof cases
    case 1
    then show ?thesis by (auto split: if_splits)
  next
    case 2
    then have "j - i = Suc (j - (i + 1))" by arith
    then have "(x # xs) ! (j - i) = xs ! (j - (i + 1))" by simp
    with 2 show ?thesis by auto
  qed
qed

lemma index_loop_hit:
  "k \<in> key ` set xs \<Longrightarrow> \<exists>j. index_loop key i xs m k = Some j"
proof (induction xs arbitrary: i m)
  case Nil
  then show ?case by simp
next
  case (Cons x xs)
  show ?case
  proof (cases "k \<in> key ` set xs")
    case True
    then show ?thesis using Cons.IH by simp
  next
    case False
    with Cons.prems have "key x = k" by auto
    then show ?thesis using False by (simp add: index_loop_miss)
  qed
qed

lemma index0_sound:
  "index_loop key 0 xs Map.empty k = Some j \<Longrightarrow> j < length xs \<and> key (xs ! j) = k"
  using index_loop_sound[of key 0 xs Map.empty k j] by auto

lemma index0_None:
  "index_loop key 0 xs Map.empty k = None \<longleftrightarrow> k \<notin> key ` set xs"
  using index_loop_hit[of k key xs 0 Map.empty] index_loop_miss[of k key xs 0 Map.empty]
  by auto

lemma fold_step_nth:
  assumes step: "\<And>x res. step x res = (case M (key x) of Some idx \<Rightarrow> res[idx := f (res ! idx) x] | None \<Rightarrow> res @ [x])"
  shows "a < length res \<Longrightarrow>
    a < length (fold step xs res) \<and>
    fold step xs res ! a = fold (\<lambda>x t. f t x) (filter (\<lambda>x. M (key x) = Some a) xs) (res ! a)"
proof (induction xs arbitrary: res)
  case Nil
  then show ?case by simp
next
  case (Cons x xs)
  show ?case
  proof (cases "M (key x)")
    case None
    then have s: "step x res = res @ [x]" by (simp add: step)
    have "a < length (res @ [x])" using Cons.prems by simp
    from Cons.IH[OF this] show ?thesis
      using None Cons.prems by (simp add: s nth_append)
  next
    case (Some idx)
    then have s: "step x res = res[idx := f (res ! idx) x]" by (simp add: step)
    have "a < length (res[idx := f (res ! idx) x])" using Cons.prems by simp
    from Cons.IH[OF this] show ?thesis
      using Some Cons.prems by (cases "idx = a") (simp_all add: s)
  qed
qed

lemma fold_step_drop:
  assumes step: "\<And>x res. step x res = (case M (key x) of Some idx \<Rightarrow> res[idx := f (res ! idx) x] | None \<Rightarrow> res @ [x])"
    and bound: "\<And>k idx. M k = Some idx \<Longrightarrow> idx < n"
  shows "n \<le> length res \<Longrightarrow>
    drop n (fold step xs res) = drop n res @ filter (\<lambda>x. M (key x) = None) xs"
proof (induction xs arbitrary: res)
  case Nil
  then show ?case by simp
next
  case (Cons x xs)
  show ?case
  proof (cases "M (key x)")
    case None
    then have s: "step x res = res @ [x]" by (simp add: step)
    have "n \<le> length (res @ [x])" using Cons.prems by simp
    from Cons.IH[OF this] show ?thesis
      using None Cons.prems by (simp add: s)
  next
    case (Some idx)
    then have s: "step x res = res[idx := f (res ! idx) x]" by (simp add: step)
    have "idx < n" using Some bound by blast
    have "n \<le> length (res[idx := f (res ! idx) x])" using Cons.prems by simp
    from Cons.IH[OF this] show ?thesis
      using Some \<open>idx < n\<close> by (simp add: s drop_update_cancel)
  qed
qed


lemma merge_topic_step_shape:
  "merge_topic_step M x res = (case M (title x) of
      Some idx \<Rightarrow> res[idx := mergeTopicItems (res ! idx) x]
    | None \<Rightarrow> res @ [x])"
  by (simp add: merge_topic_step_def)

lemma title_mergeTopicItems [simp]: "title (mergeTopicItems old new) = title new"
  by (simp add: mergeTopicItems_def Let_def)

lemma fold_merge_title:
  "(\<And>pt. pt \<in> set pts \<Longrightarrow> title pt = T) \<Longrightarrow> title t = T
   \<Longrightarrow> title (fold (\<lambda>x t. mergeTopicItems t x) pts t) = T"
proof (induction pts arbitrary: t)
  case Nil
  then show ?case by simp
next
  case (Cons p pts)
  have "title (mergeTopicItems t p) = T" using Cons.prems(1)[of p] by simp
  moreover have "\<And>pt. pt \<in> set pts \<Longrightarrow> title pt = T" using Cons.prems(1) by simp
  ultimately have "title (fold (\<lambda>x t. mergeTopicItems t x) pts (mergeTopicItems t p)) = T"
    by (rule Cons.IH[rotated])
  then show ?case by simp
qed




lemma fold_step_length:
  assumes step: "\<And>x res. step x res = (case M (key x) of Some idx \<Rightarrow> res[idx := f (res ! idx) x] | None \<Rightarrow> res @ [x])"
  shows "length res \<le> length (fold step xs res)"
proof (induction xs arbitrary: res)
  case Nil
  show ?case by simp
next
  case (Cons x xs)
  have "length res \<le> length (step x res)"
    by (cases "M (key x)") (simp_all add: step)
  also have "\<dots> \<le> length (fold step xs (step x res))" by (rule Cons.IH)
  finally show ?case by simp
qed




lemma mergeTopics_Some:
  "topics_of (mergeTopics (Some acc) (Some p)) =
     fold (merge_topic_step (index_loop title 0 (topics acc) Map.empty)) (topics p) (topics acc)"
  by (simp add: mergeTopics_def topics_of_def Let_def)

lemma mergeTopics_drop_Some:
  "drop (length (topics acc)) (topics_of (mergeTopics (Some acc) (Some p)))
     = filter (\<lambda>pt. title pt \<notin> title ` set (topics acc)) (topics p)"
proof -
  let ?M = "index_loop title 0 (topics acc) Map.empty"
  have b: "\<And>k idx. ?M k = Some idx \<Longrightarrow> idx < length (topics acc)"
    using index0_sound by fast
  have "drop (length (topics acc)) (fold (merge_topic_step ?M) (topics p) (topics acc))
      = drop (length (topics acc)) (topics acc) @ filter (\<lambda>x. ?M (title x) = None) (topics p)"
    by (rule fold_step_drop[where f = mergeTopicItems, OF merge_topic_step_shape b]) simp_all
  then show ?thesis
    by (simp add: mergeTopics_Some index0_None)
qed

lemma mergeTopics_title_nth_Some:
  assumes "a < length (topics acc)"
  shows "a < length (topics_of (mergeTopics (Some acc) (Some p)))
       \<and> title (topics_of (mergeTopics (Some acc) (Some p)) ! a) = title (topics acc ! a)"
proof -
  let ?M = "index_loop title 0 (topics acc) Map.empty"
  let ?F = "filter (\<lambda>x. ?M (title x) = Some a) (topics p)"
  have st: "a < length (fold (merge_topic_step ?M) (topics p) (topics acc)) \<and>
        fold (merge_topic_step ?M) (topics p) (topics acc) ! a
      = fold (\<lambda>x t. mergeTopicItems t x) ?F (topics acc ! a)"
    by (rule fold_step_nth[where f = mergeTopicItems, OF merge_topic_step_shape assms])
  have h: "\<And>pt. pt \<in> set ?F \<Longrightarrow> title pt = title (topics acc ! a)"
  proof -
    fix pt assume "pt \<in> set ?F"
    then have "?M (title pt) = Some a" by simp
    from index0_sound[OF this] show "title pt = title (topics acc ! a)" by simp
  qed
  have "title (fold (\<lambda>x t. mergeTopicItems t x) ?F (topics acc ! a)) = title (topics acc ! a)"
    by (rule fold_merge_title[OF h refl])
  with st show ?thesis by (simp add: mergeTopics_Some)
qed

lemma mergeTopics_take_Some:
  "map title (take (length (topics acc)) (topics_of (mergeTopics (Some acc) (Some p))))
     = map title (topics acc)"
proof (rule nth_equalityI)
  have "length (topics acc) \<le> length (topics_of (mergeTopics (Some acc) (Some p)))"
    unfolding mergeTopics_Some
    by (rule fold_step_length[where f = mergeTopicItems, OF merge_topic_step_shape])
  then show len: "length (map title (take (length (topics acc)) (topics_of (mergeTopics (Some acc) (Some p)))))
      = length (map title (topics acc))" by simp
  fix i assume "i < length (map title (take (length (topics acc)) (topics_of (mergeTopics (Some acc) (Some p)))))"
  with len have i: "i < length (topics acc)" by simp
  from mergeTopics_title_nth_Some[OF i, of p] i
  show "map title (take (length (topics acc)) (topics_of (mergeTopics (Some acc) (Some p)))) ! i
      = map title (topics acc) ! i" by simp
qed

lemma mergeTopics_take:
  "map title (take (length (topics_of accumulated)) (topics_of (mergeTopics accumulated partial)))
     = map title (topics_of accumulated)"
proof (cases accumulated)
  case None
  then show ?thesis by (simp add: topics_of_def)
next
  case (Some acc)
  show ?thesis
  proof (cases partial)
    case None
    with Some show ?thesis by (simp add: topics_of_def mergeTopics_def)
  next
    case (Some p)
    with \<open>accumulated = Some acc\<close> show ?thesis
      using mergeTopics_take_Some[of acc p] by (simp add: topics_of_def)
  qed
qed

lemma mergeTopics_drop:
  "drop (length (topics_of accumulated)) (topics_of (mergeTopics accumulated partial))
     = filter (\<lambda>pt. title pt \<notin> title ` set (topics_of accumulated)) (topics_of partial)"
proof (cases accumulated)
  case None
  then show ?thesis by (simp add: topics_of_def mergeTopics_def)
next
  case (Some acc)
  show ?thesis
  proof (cases partial)
    case None
    with Some show ?thesis by (simp add: topics_of_def mergeTopics_def)
  next
    case (Some p)
    with \<open>accumulated = Some acc\<close> show ?thesis
      using mergeTopics_drop_Some[of acc p] by (simp add: topics_of_def)
  qed
qed


lemma mergeTopics_titles:
  "map title (topics_of (mergeTopics accumulated partial))
    = map title (topics_of accumulated)
      @ map title (filter (\<lambda>pt. title pt \<notin> title ` set (topics_of accumulated)) (topics_of partial))"
proof -
  let ?R = "topics_of (mergeTopics accumulated partial)"
  let ?n = "length (topics_of accumulated)"
  have "map title ?R = map title (take ?n ?R) @ map title (drop ?n ?R)"
    by (simp flip: map_append)
  then show ?thesis by (simp only: mergeTopics_take mergeTopics_drop)
qed

lemma mergeTopics_unique:
  assumes "titles_unique accumulated" "titles_unique partial"
  shows "titles_unique (mergeTopics accumulated partial)"
proof -
  have a: "distinct (map title (topics_of accumulated))"
    using assms(1) by (simp add: titles_unique_def topics_of_def split: option.splits)
  have p: "distinct (map title (topics_of partial))"
    using assms(2) by (simp add: titles_unique_def topics_of_def split: option.splits)
  have "distinct (map title (topics_of (mergeTopics accumulated partial)))"
    unfolding mergeTopics_titles using a p by (force simp: distinct_map_filter image_iff)
  then show ?thesis
    by (simp add: titles_unique_def topics_of_def split: option.splits)
qed



lemmas eval_merge = mergeTopics_def merge_topic_step_def mergeTopicItems_def merge_item_step_def
  mergeMessageIDs_def mark_seen_def take_seen_def Let_def topics_of_def
  chunk1_reply_def chunk2_reply_def repeated_reply_def topicA_old_def topicA_new_def topicB_def
  itemX_old_def itemX_new_def itemY_def itemZ_def



text \<open>
  C5, as stated for every input, fails: a reply that repeats a title absent from
  \<open>accumulated\<close> has both copies appended, because the index of old titles is not
  extended while new topics are appended.
\<close>

theorem mergeTopics_unique_counterexample:
  "titles_unique (Some chunk1_reply) \<and> \<not> titles_unique (mergeTopics (Some chunk1_reply) (Some repeated_reply))"
  by (simp add: titles_unique_def eval_merge)

text \<open>
  C5 (amended): if no title occurs twice in \<open>accumulated\<close> and none occurs twice in
  \<open>partial\<close>, then no title occurs twice in \<open>mergeTopics accumulated partial\<close>.
\<close>

theorem mergeTopics_titles_unique:
  "titles_unique accumulated \<and> titles_unique partial \<longrightarrow> titles_unique (mergeTopics accumulated partial)"
  using mergeTopics_unique by blast

theorem mergeTopics_titles_unique_witness:
  "titles_unique (Some chunk1_reply) \<and> titles_unique (Some chunk2_reply)
   \<and> titles_unique (mergeTopics (Some chunk1_reply) (Some chunk2_reply))"
  using mergeTopics_titles_unique [of "Some chunk1_reply" "Some chunk2_reply"]
  by (simp add: titles_unique_def chunk1_reply_def chunk2_reply_def topicA_old_def topicA_new_def topicB_def)

section \<open>Display formatter: properties\<close>

lemma ReplaceAll_concat_map:
  "ReplaceAll (concat (map f s)) old new = concat (map (\<lambda>c. ReplaceAll (f c) old new) s)"
  by (induction s) (simp_all add: ReplaceAll_def)

lemma ReplaceAll_as_map: "ReplaceAll s old new = concat (map (\<lambda>c. if c = old then new else [c]) s)"
  by (simp add: ReplaceAll_def)

lemma escape_char_steps:
  "ReplaceAll (ReplaceAll (ReplaceAll (if c = CHR ''&'' then ''&amp;'' else [c]) CHR ''<'' ''&lt;'')
      CHR ''>'' ''&gt;'') (CHR 0x22) ''&quot;'' = escape_char c"
  by (simp add: ReplaceAll_def escape_char_def)

lemma escapeHTML_charwise: "escapeHTML s = concat (map escape_char s)"
proof -
  have "escapeHTML s = ReplaceAll (ReplaceAll (ReplaceAll
          (concat (map (\<lambda>c. if c = CHR ''&'' then ''&amp;'' else [c]) s))
          CHR ''<'' ''&lt;'') CHR ''>'' ''&gt;'') (CHR 0x22) ''&quot;''"
    by (simp add: escapeHTML_def Let_def ReplaceAll_as_map[of s])
  also have "\<dots> = concat (map escape_char s)"
    by (simp only: ReplaceAll_concat_map escape_char_steps)
  finally show ?thesis .
qed

lemma escape_char_clean:
  "CHR ''<'' \<notin> set (escape_char c) \<and> CHR ''>'' \<notin> set (escape_char c) \<and> CHR 0x22 \<notin> set (escape_char c)"
  by (simp add: escape_char_def)

lemma escapeHTML_clean:
  "CHR ''<'' \<notin> set (escapeHTML s) \<and> CHR ''>'' \<notin> set (escapeHTML s) \<and> CHR 0x22 \<notin> set (escapeHTML s)"
  using escape_char_clean by (simp add: escapeHTML_charwise)

lemma tags_only_append: "tags_only s \<Longrightarrow> tags_only t \<Longrightarrow> tags_only (s @ t)"
proof (induction s rule: tags_only.induct)
  case 1
  then show ?case by simp
next
  case (2 c)
  then show ?case by (cases t) simp_all
next
  case (3 c d cs)
  then show ?case by simp
qed

lemma tags_only_plain: "CHR ''<'' \<notin> set s \<Longrightarrow> tags_only s"
  by (induction s rule: tags_only.induct) auto

lemma tags_only_concat: "(\<And>x. x \<in> set xs \<Longrightarrow> tags_only x) \<Longrightarrow> tags_only (concat xs)"
  by (induction xs) (simp_all add: tags_only_append)

lemma tags_only_suffix: "tags_only (s @ t) \<Longrightarrow> tags_only t"
proof (induction s rule: tags_only.induct)
  case 1
  then show ?case by simp
next
  case (2 c)
  then show ?case by (cases t) simp_all
next
  case (3 c d cs)
  then show ?case by simp
qed

lemma tags_only_no_script: "tags_only s \<Longrightarrow> \<not> sublist ''<script'' s"
proof
  assume t: "tags_only s" and "sublist ''<script'' s"
  then obtain ps ss where "s = ps @ ''<script'' @ ss" by (auto simp: sublist_def)
  with t have "tags_only (''<script'' @ ss)" using tags_only_suffix by blast
  then show False by simp
qed

lemma digit_char_plain: "d < 10 \<Longrightarrow> digit_char d \<noteq> CHR ''<''"
proof -
  assume "d < 10"
  then have "digit_char d \<in> set ''0123456789''"
    unfolding digit_char_def by (intro nth_mem) simp
  then show ?thesis by auto
qed

lemma digits_plain: "CHR ''<'' \<notin> set (digits n)"
proof (induction n rule: digits.induct)
  case (1 n)
  show ?case
  proof (cases "n < 10")
    case True
    then show ?thesis using digit_char_plain[of n] by (simp add: digits.simps[of n])
  next
    case False
    have "n mod 10 < 10" by simp
    then show ?thesis using False 1 digit_char_plain[of "n mod 10"]
      by (simp add: digits.simps[of n])
  qed
qed

lemma show_int_plain: "CHR ''<'' \<notin> set (show_int i)"
  by (simp add: show_int_def digits_plain)

lemma tags_only_escapeHTML: "tags_only (escapeHTML s)"
  by (rule tags_only_plain) (simp add: escapeHTML_clean)

lemma tags_only_links: "tags_only (format_links chatID ids)"
  unfolding format_links_def
proof (rule tags_only_concat)
  fix x assume "x \<in> set (map (\<lambda>msgID. let link = buildMessageLink chatID msgID in
        if link \<noteq> [] then '' [<a href='' @ [CHR 0x22] @ escapeHTML link @ [CHR 0x22] @ ''>link</a>]'' else []) ids)"
  then obtain m where x: "x = (let link = buildMessageLink chatID m in
        if link \<noteq> [] then '' [<a href='' @ [CHR 0x22] @ escapeHTML link @ [CHR 0x22] @ ''>link</a>]'' else [])"
    by auto
  have "tags_only ('' [<a href='' @ ([CHR 0x22] @ (escapeHTML l @ ([CHR 0x22] @ ''>link</a>]''))))" for l
    by (intro tags_only_append tags_only_escapeHTML) simp_all
  then show "tags_only x" unfolding x Let_def by simp
qed

lemma tags_only_item: "tags_only (format_item chatID item)"
  unfolding format_item_def
  by (intro tags_only_append tags_only_escapeHTML tags_only_links) simp_all

lemma tags_only_topics: "tags_only (format_topics chatID i ts)"
proof (induction ts arbitrary: i)
  case Nil
  show ?case by simp
next
  case (Cons t ts)
  have a: "tags_only ([CHR 0x0A] @ show_int (int i + 1) @ ''. '' @ escapeHTML (Title t) @ [CHR 0x0A])"
    by (intro tags_only_append tags_only_escapeHTML tags_only_plain show_int_plain) simp_all
  have b: "tags_only (concat (map (format_item chatID) (Items t)))"
    by (rule tags_only_concat) (auto simp: tags_only_item)
  show ?case
    using a b Cons[of "i + 1"] by (simp only: format_topics.simps tags_only_append)
qed

lemma tags_only_format: "tags_only (FormatSummaryForDisplay result chatID startDate endDate)"
proof -
  have h: "tags_only header_title" by (simp add: header_title_def)
  have d: "tags_only (header_dates startDate endDate)"
    unfolding header_dates_def
    by (intro tags_only_append tags_only_escapeHTML) simp_all
  show ?thesis
    unfolding FormatSummaryForDisplay_def
    by (auto split: option.splits intro!: tags_only_append h d tags_only_topics)
qed

lemmas eval_format = FormatSummaryForDisplay_def format_item_def
  format_links_def buildMessageLink_def show_int_def digits.simps digit_char_def escapeHTML_def
  ReplaceAll_def Let_def

text \<open>
  C6, as stated, has the apostrophe among the escaped characters. \<open>escapeHTML\<close> replaces
  four characters and leaves the apostrophe as it is: a sender named \<^verbatim>\<open>O'B\<close> reaches the
  output unchanged.
\<close>

theorem escapeHTML_apostrophe_counterexample:
  "escapeHTML [CHR ''O'', CHR 0x27, CHR ''B''] = [CHR ''O'', CHR 0x27, CHR ''B'']
   \<and> FormatSummaryForDisplay (Some apostrophe_result) (- 123456) ''2025-02-10'' ''2025-02-10''
     = header_title @ header_dates ''2025-02-10'' ''2025-02-10''
       @ [CHR 0x0A] @ ''1. T'' @ [CHR 0x0A] @ ''- <b>O'' @ [CHR 0x27] @ ''B</b> x'' @ [CHR 0x0A]"
  by (simp add: eval_format apostrophe_result_def)

text \<open>
  C6 (amended): \<open>escapeHTML\<close> escapes character by character the four characters \<open>&\<close>,
  \<open><\<close>, \<open>>\<close> and the double quote, \<open>&\<close> first (an entity it produces is not escaped
  again), so that none of \<open><\<close>, \<open>>\<close> and the double quote remains in an escaped string.
  The output is the fixed template with every user-derived string escaped in this way
  where it is placed: the two date strings in the header, the title of each topic, the
  sender name and the description of each item, and the URL inside each \<open>href\<close>. The
  output never contains \<^verbatim>\<open><script\<close>, whatever the sender names contain.
\<close>

theorem FormatSummaryForDisplay_escaped:
  "escapeHTML s = concat (map escape_char s)
   \<and> CHR ''<'' \<notin> set (escapeHTML s) \<and> CHR ''>'' \<notin> set (escapeHTML s) \<and> CHR 0x22 \<notin> set (escapeHTML s)
   \<and> FormatSummaryForDisplay None chatID startDate endDate = []
   \<and> FormatSummaryForDisplay (Some r) chatID startDate endDate
       = (if Topics r = [] then []
          else header_title @ header_dates startDate endDate @ format_topics chatID 0 (Topics r))
   \<and> header_dates startDate endDate
       = [CHR 0xF0, CHR 0x9F, CHR 0x93, CHR 0x85] @ '' '' @ concat (map escape_char startDate)
         @ '' '' @ [CHR 0xE8, CHR 0x87, CHR 0xB3] @ '' '' @ concat (map escape_char endDate)
         @ '' (UTC)'' @ [CHR 0x0A]
   \<and> format_topics chatID i [] = []
   \<and> format_topics chatID i (topic # rest)
       = [CHR 0x0A] @ show_int (int i + 1) @ ''. '' @ concat (map escape_char (Title topic))
         @ [CHR 0x0A] @ concat (map (format_item chatID) (Items topic))
         @ format_topics chatID (i + 1) rest
   \<and> format_item chatID item
       = ''- <b>'' @ concat (map escape_char (SenderName' item)) @ ''</b> ''
         @ concat (map escape_char (Description item))
         @ format_links chatID (MessageIDs item) @ [CHR 0x0A]
   \<and> format_links chatID [] = []
   \<and> format_links chatID (msgID # msgIDs)
       = (if buildMessageLink chatID msgID = [] then []
          else '' [<a href='' @ [CHR 0x22]
               @ concat (map escape_char (buildMessageLink chatID msgID))
               @ [CHR 0x22] @ ''>link</a>]'')
         @ format_links chatID msgIDs
   \<and> \<not> sublist ''<script'' (FormatSummaryForDisplay result chatID startDate endDate)"
proof -
  have 1: "escapeHTML s = concat (map escape_char s)" by (rule escapeHTML_charwise)
  have 2: "CHR ''<'' \<notin> set (escapeHTML s) \<and> CHR ''>'' \<notin> set (escapeHTML s) \<and> CHR 0x22 \<notin> set (escapeHTML s)"
    by (rule escapeHTML_clean)
  have 3: "FormatSummaryForDisplay None chatID startDate endDate = []"
    by (simp add: FormatSummaryForDisplay_def)
  have 4: "FormatSummaryForDisplay (Some r) chatID startDate endDate
       = (if Topics r = [] then []
          else header_title @ header_dates startDate endDate @ format_topics chatID 0 (Topics r))"
    by (simp add: FormatSummaryForDisplay_def)
  have 5: "header_dates startDate endDate
       = [CHR 0xF0, CHR 0x9F, CHR 0x93, CHR 0x85] @ '' '' @ concat (map escape_char startDate)
         @ '' '' @ [CHR 0xE8, CHR 0x87, CHR 0xB3] @ '' '' @ concat (map escape_char endDate)
         @ '' (UTC)'' @ [CHR 0x0A]"
    by (simp add: header_dates_def escapeHTML_charwise)
  have 6: "format_topics chatID i [] = []" by simp
  have 7: "format_topics chatID i (topic # rest)
       = [CHR 0x0A] @ show_int (int i + 1) @ ''. '' @ concat (map escape_char (Title topic))
         @ [CHR 0x0A] @ concat (map (format_item chatID) (Items topic))
         @ format_topics chatID (i + 1) rest"
    by (simp add: escapeHTML_charwise)
  have 8: "format_item chatID item
       = ''- <b>'' @ concat (map escape_char (SenderName' item)) @ ''</b> ''
         @ concat (map escape_char (Description item))
         @ format_links chatID (MessageIDs item) @ [CHR 0x0A]"
    by (simp add: format_item_def escapeHTML_charwise)
  have 9: "format_links chatID [] = []" by (simp add: format_links_def)
  have 10: "format_links chatID (msgID # msgIDs)
       = (if buildMessageLink chatID msgID = [] then []
          else '' [<a href='' @ [CHR 0x22]
               @ concat (map escape_char (buildMessageLink chatID msgID))
               @ [CHR 0x22] @ ''>link</a>]'')
         @ format_links chatID msgIDs"
    by (simp add: format_links_def Let_def escapeHTML_charwise)
  have 11: "\<not> sublist ''<script'' (FormatSummaryForDisplay result chatID startDate endDate)"
    by (rule tags_only_no_script[OF tags_only_format])
  show ?thesis
    by (intro conjI 1 2[THEN conjunct1] 2[THEN conjunct2, THEN conjunct1]
        2[THEN conjunct2, THEN conjunct2] 3 4 5 6 7 8 9 10 11)
qed

lemma format_example:
  "FormatSummaryForDisplay (Some script_result) (- 1001427755127) ''2025-02-10'' ''2025-02-10''
     = header_title @ header_dates ''2025-02-10'' ''2025-02-10''
       @ [CHR 0x0A] @ ''1. Q&amp;A'' @ [CHR 0x0A]
       @ ''- <b>&lt;script&gt;</b> x [<a href='' @ [CHR 0x22] @ ''https://t.me/c/1427755127/7''
       @ [CHR 0x22] @ ''>link</a>]'' @ [CHR 0x0A]"
  by (simp add: eval_format script_result_def)

theorem FormatSummaryForDisplay_escaped_witness:
  "FormatSummaryForDisplay (Some script_result) (- 1001427755127) ''2025-02-10'' ''2025-02-10''
     = header_title @ header_dates ''2025-02-10'' ''2025-02-10''
       @ [CHR 0x0A] @ ''1. Q&amp;A'' @ [CHR 0x0A]
       @ ''- <b>&lt;script&gt;</b> x [<a href='' @ [CHR 0x22] @ ''https://t.me/c/1427755127/7''
       @ [CHR 0x22] @ ''>link</a>]'' @ [CHR 0x0A]
   \<and> \<not> sublist ''<script''
         (FormatSummaryForDisplay (Some script_result) (- 1001427755127) ''2025-02-10'' ''2025-02-10'')"
proof -
  have "\<not> sublist ''<script''
         (FormatSummaryForDisplay (Some script_result) (- 1001427755127) ''2025-02-10'' ''2025-02-10'')"
    using FormatSummaryForDisplay_escaped [where result = "Some script_result"
        and chatID = "- 1001427755127" and startDate = "''2025-02-10''" and endDate = "''2025-02-10''"]
    by blast
  with format_example show ?thesis by blast
qed

section \<open>Retention sweep: properties\<close>

lemma start_of_day_shift: "start_of_day (AddDate_days t d) = start_of_day t + d * day"
  by (simp add: start_of_day_def AddDate_days_def)

lemma cleanup_cutoff_eq:
  "cleanup_cutoff cfg now = start_of_day now - (RetentionDays cfg + 1) * day"
  by (simp add: cleanup_cutoff_def start_of_day_shift algebra_simps)

lemma day_pos: "0 < day"
  by (simp add: day_def)

lemma messages_cleanup:
  "messages (cleanupMessages e cfg w) =
     (if ctx_done e w \<or> db_fault e (clock w) then messages w
      else filter (\<lambda>m. \<not> SentAt m < cleanup_cutoff cfg (time_Now e w)) (messages w))"
  by (simp add: cleanupMessages_def DeleteBefore_def tick_def)

text \<open>
  C7: the sweep deletes exactly the messages sent before
  \<open>start_of_day (now - (RetentionDays + 1) days)\<close> (and nothing at all when the delete
  statement does not execute); every message sent at or after
  \<open>start_of_day now - RetentionDays days\<close> is still in the store afterwards, unchanged, in
  its place among the other survivors; the task table is not touched.
\<close>

theorem cleanupMessages_retention:
  "messages (cleanupMessages e cfg w) =
     (if ctx_done e w \<or> db_fault e (clock w) then messages w
      else filter (\<lambda>m. \<not> SentAt m < start_of_day (AddDate_days (time_Now e w) (- (RetentionDays cfg + 1))))
             (messages w))
   \<and> filter (\<lambda>m. start_of_day (time_Now e w) - RetentionDays cfg * day \<le> SentAt m)
        (messages (cleanupMessages e cfg w))
     = filter (\<lambda>m. start_of_day (time_Now e w) - RetentionDays cfg * day \<le> SentAt m) (messages w)
   \<and> (\<forall>m \<in> set (messages w).
        start_of_day (time_Now e w) - RetentionDays cfg * day \<le> SentAt m
        \<longrightarrow> m \<in> set (messages (cleanupMessages e cfg w)))
   \<and> tasks (cleanupMessages e cfg w) = tasks w"
proof -
  let ?c = "cleanup_cutoff cfg (time_Now e w)"
  let ?b = "start_of_day (time_Now e w) - RetentionDays cfg * day"
  have lt: "?c < ?b"
    using day_pos by (simp add: cleanup_cutoff_eq algebra_simps)
  have c: "?c = start_of_day (AddDate_days (time_Now e w) (- (RetentionDays cfg + 1)))"
    by (simp add: cleanup_cutoff_def)
  have keep: "filter (\<lambda>m. ?b \<le> SentAt m) (filter (\<lambda>m. \<not> SentAt m < ?c) ms)
      = filter (\<lambda>m. ?b \<le> SentAt m) ms" for ms
    using lt by (induction ms) auto
  have 1: "messages (cleanupMessages e cfg w) =
     (if ctx_done e w \<or> db_fault e (clock w) then messages w
      else filter (\<lambda>m. \<not> SentAt m < ?c) (messages w))"
    by (rule messages_cleanup)
  have 2: "filter (\<lambda>m. ?b \<le> SentAt m) (messages (cleanupMessages e cfg w))
     = filter (\<lambda>m. ?b \<le> SentAt m) (messages w)"
    unfolding 1 using keep[of "messages w"] by (simp del: filter_filter)
  have 3: "\<forall>m \<in> set (messages w). ?b \<le> SentAt m \<longrightarrow> m \<in> set (messages (cleanupMessages e cfg w))"
    unfolding 1 using lt by auto
  have 4: "tasks (cleanupMessages e cfg w) = tasks w"
    by (simp add: cleanupMessages_def DeleteBefore_def tick_def)
  show ?thesis using 1 2 3 4 unfolding c by blast
qed

theorem cleanupMessages_retention_witness:
  "message_at (8 * day) \<in> set (messages store_three)
   \<and> start_of_day (time_Now quiet_env store_three) - RetentionDays keep_two * day \<le> SentAt (message_at (8 * day))
   \<and> message_at (8 * day) \<in> set (messages (cleanupMessages quiet_env keep_two store_three))
   \<and> messages (cleanupMessages quiet_env keep_two store_three) = [message_at (7 * day), message_at (8 * day)]"
proof -
  have a: "message_at (8 * day) \<in> set (messages store_three)"
    by (simp add: store_three_def)
  have n: "time_Now quiet_env store_three = 10 * day + 18000000000000"
    by (simp add: time_Now_def quiet_env_def)
  have sd: "start_of_day (10 * day + 18000000000000) = 10 * day"
    by (simp add: start_of_day_def day_def)
  have b: "start_of_day (time_Now quiet_env store_three) - RetentionDays keep_two * day \<le> SentAt (message_at (8 * day))"
    unfolding n sd by (simp add: keep_two_def message_at_def day_def)
  have c: "message_at (8 * day) \<in> set (messages (cleanupMessages quiet_env keep_two store_three))"
    using cleanupMessages_retention [of quiet_env keep_two store_three] a b by blast
  have cut: "cleanup_cutoff keep_two (10 * day + 18000000000000) = 7 * day"
    unfolding cleanup_cutoff_eq sd by (simp add: keep_two_def)
  have d: "messages (cleanupMessages quiet_env keep_two store_three) = [message_at (7 * day), message_at (8 * day)]"
    unfolding messages_cleanup n cut
    by (simp add: ctx_done_def quiet_env_def store_three_def message_at_def day_def)
  show ?thesis using a b c d by blast
qed

section \<open>Scheduler: properties\<close>

subsection \<open>Effects of the primitive operations\<close>

lemma tick_fields [simp]:
  "clock (tick w) = clock w + 1" "tasks (tick w) = tasks w" "trace (tick w) = trace w"
  "messages (tick w) = messages w" "task_order (tick w) = task_order w"
  by (simp_all add: tick_def)

lemma ctx_done_mono: "ctx_done e w \<Longrightarrow> clock w \<le> clock w' \<Longrightarrow> ctx_done e w'"
  by (auto simp: ctx_done_def split: option.splits)

lemma ctx_done_never: "cancel_at e = None \<Longrightarrow> \<not> ctx_done e w"
  by (simp add: ctx_done_def)

lemma Exec_fields [simp]:
  "clock (snd (Exec e i u w)) = clock w + 1"
  "trace (snd (Exec e i u w)) = trace w"
  "messages (snd (Exec e i u w)) = messages w"
  "task_order (snd (Exec e i u w)) = task_order w"
  by (simp_all add: Exec_def split: option.splits)

lemma Exec_cancelled:
  "ctx_done e w \<Longrightarrow> tasks (snd (Exec e i u w)) = tasks w \<and> fst (Exec e i u w) = Some ContextCanceled"
  by (simp add: Exec_def)

lemma Exec_ok:
  "\<not> ctx_done e w \<Longrightarrow> \<not> db_fault e (clock w) \<Longrightarrow> tasks w i = Some r \<Longrightarrow>
     fst (Exec e i u w) = None \<and> tasks (snd (Exec e i u w)) = (tasks w)(i \<mapsto> u r)"
  by (simp add: Exec_def)

lemma Exec_statuses:
  "(\<And>r. Status (u r) = Status r) \<Longrightarrow> statuses (snd (Exec e i u w)) = statuses w"
  by (auto simp: Exec_def statuses_def fun_eq_iff split: option.splits)

lemma Exec_dom: "tasks w j = Some r \<Longrightarrow> \<exists>r'. tasks (snd (Exec e i u w)) j = Some r'"
  by (auto simp: Exec_def split: option.splits)

lemma Notify_fields [simp]:
  "clock (snd (Notify e s c w)) = clock w + 1"
  "tasks (snd (Notify e s c w)) = tasks w"
  "trace (snd (Notify e s c w)) = trace w @ [EvNotify s c]"
  "fst (Notify e s c w) = notify_ok e (clock w)"
  by (simp_all add: Notify_def)

lemma SummarizeRange_fields [simp]:
  "clock (snd (SummarizeRange e c a b w)) = clock w + 1"
  "tasks (snd (SummarizeRange e c a b w)) = tasks w"
  "trace (snd (SummarizeRange e c a b w)) = trace w @ [EvSummarize c a b]"
  "fst (SummarizeRange e c a b w) = summarize_result e (clock w)"
  by (simp_all add: SummarizeRange_def)

lemma sleep_fields [simp]:
  "clock (snd (sleep_or_cancel e d w)) = clock w + 1"
  "tasks (snd (sleep_or_cancel e d w)) = tasks w"
  "trace (snd (sleep_or_cancel e d w)) = trace w @ [EvSleep d]"
  "fst (sleep_or_cancel e d w) = ctx_done e (snd (sleep_or_cancel e d w))"
  by (simp_all add: sleep_or_cancel_def Let_def)

subsection \<open>The delivery loop\<close>

lemma notify_loop_cancelled:
  "ctx_done e w \<Longrightarrow> attempt \<le> notifyRetryTimes \<Longrightarrow>
     notify_loop e cfg s c attempt w = ((False, Some Cancelled), w)"
  by (simp add: notify_loop.simps[of e cfg s c attempt w])

lemma notify_loop_after: "notifyRetryTimes < attempt \<Longrightarrow> notify_loop e cfg s c attempt w = ((False, None), w)"
  by (simp add: notify_loop.simps[of e cfg s c attempt w])

lemma notify_loop_ok:
  "attempt \<le> notifyRetryTimes \<Longrightarrow> \<not> ctx_done e w \<Longrightarrow> notify_ok e (clock w) \<Longrightarrow>
     notify_loop e cfg s c attempt w = ((True, None), snd (Notify e s c w))"
  by (subst notify_loop.simps) (simp add: Notify_def)

lemma notify_loop_retry:
  "attempt < notifyRetryTimes \<Longrightarrow> \<not> ctx_done e w \<Longrightarrow> \<not> notify_ok e (clock w) \<Longrightarrow>
     notify_loop e cfg s c attempt w =
       (if ctx_done e (snd (sleep_or_cancel e (retryInterval cfg div 2) (snd (Notify e s c w))))
        then ((False, Some Cancelled), snd (sleep_or_cancel e (retryInterval cfg div 2) (snd (Notify e s c w))))
        else notify_loop e cfg s c (attempt + 1)
               (snd (sleep_or_cancel e (retryInterval cfg div 2) (snd (Notify e s c w)))))"
  by (subst notify_loop.simps) (simp add: Notify_def sleep_or_cancel_def Let_def)

lemma notify_loop_last:
  "attempt = notifyRetryTimes \<Longrightarrow> \<not> ctx_done e w \<Longrightarrow> \<not> notify_ok e (clock w) \<Longrightarrow>
     notify_loop e cfg s c attempt w = ((False, None), snd (Notify e s c w))"
  by (subst notify_loop.simps) (simp add: Notify_def notify_loop_after)

lemma summarize_calls_Notify [simp]: "summarize_calls (snd (Notify e s c w)) = summarize_calls w"
  by (simp add: summarize_calls_def)

lemma summarize_calls_sleep [simp]: "summarize_calls (snd (sleep_or_cancel e d w)) = summarize_calls w"
  by (simp add: summarize_calls_def)

lemma summarize_calls_Exec [simp]: "summarize_calls (snd (Exec e i u w)) = summarize_calls w"
  by (simp add: summarize_calls_def)

lemma notify_loop_frame:
  "tasks (snd (notify_loop e cfg s c attempt w)) = tasks w
   \<and> clock w \<le> clock (snd (notify_loop e cfg s c attempt w))
   \<and> summarize_calls (snd (notify_loop e cfg s c attempt w)) = summarize_calls w"
proof (induction e cfg s c attempt w rule: notify_loop.induct)
  case (1 e cfg s c attempt w)
  let ?w1 = "snd (Notify e s c w)"
  let ?w2 = "snd (sleep_or_cancel e (retryInterval cfg div 2) ?w1)"
  consider (after) "notifyRetryTimes < attempt"
    | (cancelled) "attempt \<le> notifyRetryTimes" "ctx_done e w"
    | (ok) "attempt \<le> notifyRetryTimes" "\<not> ctx_done e w" "notify_ok e (clock w)"
    | (last) "attempt = notifyRetryTimes" "\<not> ctx_done e w" "\<not> notify_ok e (clock w)"
    | (retry) "attempt < notifyRetryTimes" "\<not> ctx_done e w" "\<not> notify_ok e (clock w)"
    by linarith
  then show ?case
  proof cases
    case after
    then show ?thesis by (simp add: notify_loop_after)
  next
    case cancelled
    then show ?thesis by (simp add: notify_loop_cancelled)
  next
    case ok
    then show ?thesis by (simp add: notify_loop_ok)
  next
    case last
    then show ?thesis by (simp add: notify_loop_last)
  next
    case retry
    show ?thesis
    proof (cases "ctx_done e ?w2")
      case True
      with retry show ?thesis by (simp add: notify_loop_retry)
    next
      case False
      have "tasks (snd (notify_loop e cfg s c (attempt + 1) ?w2)) = tasks ?w2
           \<and> clock ?w2 \<le> clock (snd (notify_loop e cfg s c (attempt + 1) ?w2))
           \<and> summarize_calls (snd (notify_loop e cfg s c (attempt + 1) ?w2)) = summarize_calls ?w2"
        using retry False
        by (intro "1.IH"(1)[of "fst (Notify e s c w)" ?w1
              "fst (sleep_or_cancel e (retryInterval cfg div 2) ?w1)" ?w2]) (simp_all add: prod_eq_iff)
      with retry False show ?thesis by (simp add: notify_loop_retry)
    qed
  qed
qed

lemma task_order_Notify [simp]: "task_order (snd (Notify e s c w)) = task_order w"
  by (simp add: Notify_def)

lemma task_order_Summarize [simp]: "task_order (snd (SummarizeRange e c a b w)) = task_order w"
  by (simp add: SummarizeRange_def)

lemma task_order_sleep [simp]: "task_order (snd (sleep_or_cancel e d w)) = task_order w"
  by (simp add: sleep_or_cancel_def Let_def)

lemma notify_loop_order: "task_order (snd (notify_loop e cfg s c attempt w)) = task_order w"
proof (induction e cfg s c attempt w rule: notify_loop.induct)
  case (1 e cfg s c attempt w)
  let ?w1 = "snd (Notify e s c w)"
  let ?w2 = "snd (sleep_or_cancel e (retryInterval cfg div 2) ?w1)"
  consider (after) "notifyRetryTimes < attempt"
    | (cancelled) "attempt \<le> notifyRetryTimes" "ctx_done e w"
    | (ok) "attempt \<le> notifyRetryTimes" "\<not> ctx_done e w" "notify_ok e (clock w)"
    | (last) "attempt = notifyRetryTimes" "\<not> ctx_done e w" "\<not> notify_ok e (clock w)"
    | (retry) "attempt < notifyRetryTimes" "\<not> ctx_done e w" "\<not> notify_ok e (clock w)"
    by linarith
  then show ?case
  proof cases
    case after
    then show ?thesis by (simp add: notify_loop_after)
  next
    case cancelled
    then show ?thesis by (simp add: notify_loop_cancelled)
  next
    case ok
    then show ?thesis by (simp add: notify_loop_ok)
  next
    case last
    then show ?thesis by (simp add: notify_loop_last)
  next
    case retry
    show ?thesis
    proof (cases "ctx_done e ?w2")
      case True
      with retry show ?thesis by (simp add: notify_loop_retry)
    next
      case False
      have "task_order (snd (notify_loop e cfg s c (attempt + 1) ?w2)) = task_order ?w2"
        using retry False
        by (intro "1.IH"(1)[of "fst (Notify e s c w)" ?w1
              "fst (sleep_or_cancel e (retryInterval cfg div 2) ?w1)" ?w2]) (simp_all add: prod_eq_iff)
      with retry False show ?thesis by (simp add: notify_loop_retry)
    qed
  qed
qed

subsection \<open>The summary loop\<close>

lemma summarize_loop_cancelled:
  "attempt \<le> retryTimes cfg \<Longrightarrow> ctx_done e w \<Longrightarrow>
     summarize_loop e cfg c a b attempt cur w = (Inl Cancelled, w)"
  by (subst summarize_loop.simps) simp

lemma summarize_loop_after:
  "retryTimes cfg < attempt \<Longrightarrow> summarize_loop e cfg c a b attempt cur w = (Inr cur, w)"
  by (subst summarize_loop.simps) simp

lemma summarize_loop_ok:
  "attempt \<le> retryTimes cfg \<Longrightarrow> \<not> ctx_done e w \<Longrightarrow> summarize_result e (clock w) = Inr res \<Longrightarrow>
     summarize_loop e cfg c a b attempt cur w = (Inr (Inr res), snd (SummarizeRange e c a b w))"
  by (subst summarize_loop.simps) (simp add: SummarizeRange_def)

lemma summarize_loop_retry:
  "attempt < retryTimes cfg \<Longrightarrow> \<not> ctx_done e w \<Longrightarrow> summarize_result e (clock w) = Inl err \<Longrightarrow>
     summarize_loop e cfg c a b attempt cur w =
       (if ctx_done e (snd (sleep_or_cancel e (retryInterval cfg) (snd (SummarizeRange e c a b w))))
        then (Inl Cancelled, snd (sleep_or_cancel e (retryInterval cfg) (snd (SummarizeRange e c a b w))))
        else summarize_loop e cfg c a b (attempt + 1) (Inl err)
               (snd (sleep_or_cancel e (retryInterval cfg) (snd (SummarizeRange e c a b w)))))"
  by (subst summarize_loop.simps) (simp add: SummarizeRange_def sleep_or_cancel_def Let_def)

lemma summarize_loop_last:
  "attempt = retryTimes cfg \<Longrightarrow> \<not> ctx_done e w \<Longrightarrow> summarize_result e (clock w) = Inl err \<Longrightarrow>
     summarize_loop e cfg c a b attempt cur w = (Inr (Inl err), snd (SummarizeRange e c a b w))"
  by (subst summarize_loop.simps) (simp add: SummarizeRange_def summarize_loop_after)

lemma summarize_loop_frame:
  "tasks (snd (summarize_loop e cfg c a b attempt cur w)) = tasks w
   \<and> clock w \<le> clock (snd (summarize_loop e cfg c a b attempt cur w))
   \<and> task_order (snd (summarize_loop e cfg c a b attempt cur w)) = task_order w"
proof (induction e cfg c a b attempt cur w rule: summarize_loop.induct)
  case (1 e cfg c a b attempt cur w)
  let ?w1 = "snd (SummarizeRange e c a b w)"
  let ?w2 = "snd (sleep_or_cancel e (retryInterval cfg) ?w1)"
  consider (after) "retryTimes cfg < attempt"
    | (cancelled) "attempt \<le> retryTimes cfg" "ctx_done e w"
    | (ok) res where "attempt \<le> retryTimes cfg" "\<not> ctx_done e w" "summarize_result e (clock w) = Inr res"
    | (last) err where "attempt = retryTimes cfg" "\<not> ctx_done e w" "summarize_result e (clock w) = Inl err"
    | (retry) err where "attempt < retryTimes cfg" "\<not> ctx_done e w" "summarize_result e (clock w) = Inl err"
    by atomize_elim (cases "summarize_result e (clock w)", auto)
  then show ?case
  proof cases
    case after
    then show ?thesis by (simp add: summarize_loop_after)
  next
    case cancelled
    then show ?thesis by (simp add: summarize_loop_cancelled)
  next
    case ok
    then show ?thesis by (simp add: summarize_loop_ok)
  next
    case last
    then show ?thesis by (simp add: summarize_loop_last)
  next
    case retry
    show ?thesis
    proof (cases "ctx_done e ?w2")
      case True
      with retry show ?thesis by (simp add: summarize_loop_retry)
    next
      case False
      have "tasks (snd (summarize_loop e cfg c a b (attempt + 1) (Inl err) ?w2)) = tasks ?w2
           \<and> clock ?w2 \<le> clock (snd (summarize_loop e cfg c a b (attempt + 1) (Inl err) ?w2))
           \<and> task_order (snd (summarize_loop e cfg c a b (attempt + 1) (Inl err) ?w2)) = task_order ?w2"
        using retry False
        by (intro "1.IH"(1)[of "fst (SummarizeRange e c a b w)" ?w1 err
              "fst (sleep_or_cancel e (retryInterval cfg) ?w1)" ?w2]) (simp_all add: prod_eq_iff)
      with retry False show ?thesis by (simp add: summarize_loop_retry)
    qed
  qed
qed

lemma generateSummaryForTask_frame:
  "tasks (snd (generateSummaryForTask e cfg c a b w)) = tasks w
   \<and> clock w \<le> clock (snd (generateSummaryForTask e cfg c a b w))
   \<and> task_order (snd (generateSummaryForTask e cfg c a b w)) = task_order w"
proof -
  obtain r w' where l: "summarize_loop e cfg c a b 1 (Inr None) w = (r, w')"
    by (cases "summarize_loop e cfg c a b 1 (Inr None) w")
  have "snd (generateSummaryForTask e cfg c a b w) = w'"
    by (simp add: generateSummaryForTask_def Let_def l split: sum.splits option.splits)
  then show ?thesis using summarize_loop_frame[of e cfg c a b 1 "Inr None" w] l by simp
qed

lemma sendTaskNotification_frame:
  "tasks (snd (sendTaskNotification e cfg s c w)) = tasks w
   \<and> clock w \<le> clock (snd (sendTaskNotification e cfg s c w))
   \<and> summarize_calls (snd (sendTaskNotification e cfg s c w)) = summarize_calls w
   \<and> task_order (snd (sendTaskNotification e cfg s c w)) = task_order w"
  using notify_loop_frame[of e cfg s c 1 w] notify_loop_order[of e cfg s c 1 w]
  by (simp add: sendTaskNotification_def)

lemma statuses_SetSummaryContent [simp]:
  "statuses (snd (SetSummaryContent e i s w)) = statuses w"
  unfolding SetSummaryContent_def by (rule Exec_statuses) simp

lemma statuses_ClearSummaryContent [simp]:
  "statuses (snd (ClearSummaryContent e i w)) = statuses w"
  unfolding ClearSummaryContent_def by (rule Exec_statuses) simp

lemma statuses_tasks: "tasks w' = tasks w \<Longrightarrow> statuses w' = statuses w"
  by (simp add: statuses_def)

lemma store_fields [simp]:
  "clock (snd (SetSummaryContent e i s w)) = clock w + 1"
  "clock (snd (ClearSummaryContent e i w)) = clock w + 1"
  "clock (snd (UpdateTaskStatus e i st m w)) = clock w + 1"
  "clock (snd (MarkTaskCompleted e i w)) = clock w + 1"
  "clock (snd (MarkTaskFailed e i err w)) = clock w + 1"
  "clock (snd (ResetTaskToPending e i w)) = clock w + 1"
  "task_order (snd (SetSummaryContent e i s w)) = task_order w"
  "task_order (snd (ClearSummaryContent e i w)) = task_order w"
  "task_order (snd (UpdateTaskStatus e i st m w)) = task_order w"
  "task_order (snd (MarkTaskCompleted e i w)) = task_order w"
  "task_order (snd (MarkTaskFailed e i err w)) = task_order w"
  "task_order (snd (ResetTaskToPending e i w)) = task_order w"
  by (simp_all add: SetSummaryContent_def ClearSummaryContent_def UpdateTaskStatus_def
      MarkTaskCompleted_def MarkTaskFailed_def ResetTaskToPending_def)

lemma processTask_frame:
  "statuses (snd (processTask e cfg c a b i w)) = statuses w
   \<and> clock w \<le> clock (snd (processTask e cfg c a b i w))
   \<and> task_order (snd (processTask e cfg c a b i w)) = task_order w"
proof -
  obtain g w1 where g: "generateSummaryForTask e cfg c a b w = (g, w1)"
    by (cases "generateSummaryForTask e cfg c a b w")
  have "tasks w1 = tasks w" using generateSummaryForTask_frame[of e cfg c a b w] g by simp
  then have s1: "statuses w1 = statuses w" by (rule statuses_tasks)
  have w1: "clock w \<le> clock w1" "task_order w1 = task_order w"
    using generateSummaryForTask_frame[of e cfg c a b w] g by simp_all
  show ?thesis
  proof (cases g)
    case (Inl err)
    then have "snd (processTask e cfg c a b i w) = w1" using g by (simp add: processTask_def)
    then show ?thesis using s1 w1 by simp
  next
    case (Inr summary)
    show ?thesis
    proof (cases "summary = []")
      case True
      then have "snd (processTask e cfg c a b i w) = w1" using g Inr by (simp add: processTask_def)
      then show ?thesis using s1 w1 by simp
    next
      case False
      define w2 where "w2 = (if i > 0 then snd (SetSummaryContent e i summary w1) else w1)"
      have w2: "statuses w2 = statuses w" "clock w \<le> clock w2" "task_order w2 = task_order w"
        using s1 w1 by (simp_all add: w2_def)
      obtain sent err w3 where s: "sendTaskNotification e cfg summary c w2 = ((sent, err), w3)"
        by (cases "sendTaskNotification e cfg summary c w2") auto
      have "tasks w3 = tasks w2" using sendTaskNotification_frame[of e cfg summary c w2] s by simp
      then have "statuses w3 = statuses w2" by (rule statuses_tasks)
      then have s3: "statuses w3 = statuses w" using w2 by simp
      have w3: "clock w \<le> clock w3" "task_order w3 = task_order w"
        using sendTaskNotification_frame[of e cfg summary c w2] s w2 by simp_all
      have p: "snd (processTask e cfg c a b i w) =
          (case err of Some x \<Rightarrow> w3
           | None \<Rightarrow> if sent \<and> i > 0 then snd (ClearSummaryContent e i w3) else w3)"
        using g Inr False s by (simp add: processTask_def Let_def w2_def split: option.splits)
      show ?thesis unfolding p using s3 w3 by (cases err) simp_all
    qed
  qed
qed


lemma trace_store [simp]:
  "trace (snd (SetSummaryContent e i s w)) = trace w"
  "trace (snd (ClearSummaryContent e i w)) = trace w"
  "trace (snd (UpdateTaskStatus e i st m w)) = trace w"
  "trace (snd (MarkTaskCompleted e i w)) = trace w"
  "trace (snd (MarkTaskFailed e i err w)) = trace w"
  "trace (snd (ResetTaskToPending e i w)) = trace w"
  by (simp_all add: SetSummaryContent_def ClearSummaryContent_def UpdateTaskStatus_def
      MarkTaskCompleted_def MarkTaskFailed_def ResetTaskToPending_def)










lemma quiet_now: "time_Now delivering_env w = 10 * day + 18000000000000"
  by (simp add: time_Now_def delivering_env_def quiet_env_def)



lemma recovery_skips_completed:
  assumes "fst (GetPendingOrProcessingTasks e w) = Inr ts" "r \<in> set ts"
  shows "Status r = StatusPending \<or> Status r = StatusProcessing"
  using assms by (auto simp: GetPendingOrProcessingTasks_def split: if_splits)




subsection \<open>Cancellation\<close>

lemma cancelled_writes:
  assumes "ctx_done e w"
  shows "tasks (snd (MarkTaskFailed e i err w)) = tasks w"
    "tasks (snd (MarkTaskCompleted e i w)) = tasks w"
    "tasks (snd (ClearSummaryContent e i w)) = tasks w"
    "fst (MarkTaskCompleted e i w) = Some ContextCanceled"
  using Exec_cancelled[OF assms]
  by (simp_all add: MarkTaskFailed_def MarkTaskCompleted_def UpdateTaskStatus_def ClearSummaryContent_def)

lemma pickup_processing:
  assumes "tasks w i = Some row" "\<not> ctx_done e w" "\<not> db_fault e (clock w)"
  shows "fst (UpdateTaskStatus e i StatusProcessing None w) = None"
    "statuses (snd (UpdateTaskStatus e i StatusProcessing None w)) i = Some StatusProcessing"
  using Exec_ok[OF assms(2,3,1)] by (simp_all add: UpdateTaskStatus_def statuses_def)

lemma reset_pending:
  assumes "tasks w i = Some row" "\<not> ctx_done e w" "\<not> db_fault e (clock w)"
  shows "fst (ResetTaskToPending e i w) = None"
    "\<exists>row'. tasks (snd (ResetTaskToPending e i w)) i = Some row'"
  using Exec_ok[OF assms(2,3,1)] by (simp_all add: ResetTaskToPending_def)

lemma process_one_cancelled:
  assumes row: "tasks w (ID t) = Some row"
    and live: "\<not> ctx_done e w"
    and nofault: "\<not> db_fault e (clock w)"
    and cancelled: "ctx_done e (snd (processTask e cfg (ChatID t) (StartTime t) (EndTime t) (ID t)
                      (snd (UpdateTaskStatus e (ID t) StatusProcessing None w))))"
  shows "statuses (snd (process_one e cfg t w)) (ID t) = Some StatusProcessing
     \<and> task_order (snd (process_one e cfg t w)) = task_order w"
proof -
  let ?i = "ID t"
  define w1 where "w1 = snd (UpdateTaskStatus e ?i StatusProcessing None w)"
  obtain r w2 where p: "processTask e cfg (ChatID t) (StartTime t) (EndTime t) ?i w1 = (r, w2)"
    by (cases "processTask e cfg (ChatID t) (StartTime t) (EndTime t) ?i w1")
  have u: "UpdateTaskStatus e ?i StatusProcessing None w = (None, w1)"
    using pickup_processing(1)[OF row live nofault] by (simp add: w1_def prod_eq_iff)
  have s1: "statuses w1 ?i = Some StatusProcessing"
    using pickup_processing(2)[OF row live nofault] by (simp add: w1_def)
  have f: "statuses w2 = statuses w1" "task_order w2 = task_order w1"
    using processTask_frame[of e cfg "ChatID t" "StartTime t" "EndTime t" ?i w1] p by simp_all
  have d: "ctx_done e w2" using cancelled p by (simp add: w1_def)
  have o1: "task_order w1 = task_order w" by (simp add: w1_def)
  have fin: "snd (process_one e cfg t w) =
      (case r of Some err \<Rightarrow> snd (MarkTaskFailed e ?i err w2) | None \<Rightarrow> snd (MarkTaskCompleted e ?i w2))"
    using u p by (simp add: process_one_def split: option.splits prod.splits)
  have "tasks (snd (process_one e cfg t w)) = tasks w2"
    unfolding fin using cancelled_writes(1,2)[OF d] by (cases r) simp_all
  then have "statuses (snd (process_one e cfg t w)) = statuses w2" by (rule statuses_tasks)
  moreover have "task_order (snd (process_one e cfg t w)) = task_order w2"
    unfolding fin by (cases r) simp_all
  ultimately show ?thesis using f s1 o1 by simp
qed

lemma recover_one_cancelled:
  assumes fresh: "\<not> StartTime t < cutoffTime"
    and row: "tasks w (ID t) = Some row"
    and live: "\<not> ctx_done e (snd (ResetTaskToPending e (ID t) w))"
    and nofault: "\<not> db_fault e (clock w)" "\<not> db_fault e (clock w + 1)"
    and cancelled: "ctx_done e
       (if SummaryContent t \<noteq> []
        then snd (sendTaskNotification e cfg (SummaryContent t) (ChatID t)
               (snd (UpdateTaskStatus e (ID t) StatusProcessing None (snd (ResetTaskToPending e (ID t) w)))))
        else snd (processTask e cfg (ChatID t) (StartTime t) (EndTime t) (ID t)
               (snd (UpdateTaskStatus e (ID t) StatusProcessing None (snd (ResetTaskToPending e (ID t) w))))))"
  shows "statuses (recover_one e cfg cutoffTime t w) (ID t) = Some StatusProcessing
     \<and> task_order (recover_one e cfg cutoffTime t w) = task_order w"
proof -
  let ?i = "ID t"
  define w1 where "w1 = snd (ResetTaskToPending e ?i w)"
  define w2 where "w2 = snd (UpdateTaskStatus e ?i StatusProcessing None w1)"
  have c1: "clock w1 = clock w + 1" by (simp add: w1_def)
  have live0: "\<not> ctx_done e w"
    using live ctx_done_mono[of e w w1] c1 by (auto simp: w1_def)
  have r1: "ResetTaskToPending e ?i w = (None, w1)"
    using reset_pending(1)[OF row live0 nofault(1)] by (simp add: w1_def prod_eq_iff)
  obtain row1 where row1: "tasks w1 ?i = Some row1"
    using reset_pending(2)[OF row live0 nofault(1)] by (auto simp: w1_def)
  have live1: "\<not> ctx_done e w1" using live by (simp add: w1_def)
  have nf1: "\<not> db_fault e (clock w1)" using nofault(2) c1 by simp
  have r2: "UpdateTaskStatus e ?i StatusProcessing None w1 = (None, w2)"
    using pickup_processing(1)[OF row1 live1 nf1] by (simp add: w2_def prod_eq_iff)
  have s2: "statuses w2 ?i = Some StatusProcessing"
    using pickup_processing(2)[OF row1 live1 nf1] by (simp add: w2_def)
  have o2: "task_order w2 = task_order w" by (simp add: w2_def w1_def)
  show ?thesis
  proof (cases "SummaryContent t \<noteq> []")
    case True
    obtain sent err w3 where sd: "sendTaskNotification e cfg (SummaryContent t) (ChatID t) w2 = ((sent, err), w3)"
      by (cases "sendTaskNotification e cfg (SummaryContent t) (ChatID t) w2") auto
    have f3: "tasks w3 = tasks w2" "task_order w3 = task_order w2"
      using sendTaskNotification_frame[of e cfg "SummaryContent t" "ChatID t" w2] sd by simp_all
    have d3: "ctx_done e w3" using cancelled True sd by (simp add: w2_def w1_def)
    define w4 where "w4 = (if sent then snd (ClearSummaryContent e ?i w3) else w3)"
    have t4: "tasks w4 = tasks w3" using cancelled_writes(3)[OF d3] by (simp add: w4_def)
    have o4: "task_order w4 = task_order w3" by (simp add: w4_def)
    have "clock w3 \<le> clock w4" by (simp add: w4_def)
    then have d4: "ctx_done e w4" using d3 ctx_done_mono by blast
    have fin: "recover_one e cfg cutoffTime t w =
        (case err of Some sendErr \<Rightarrow> snd (MarkTaskFailed e ?i sendErr w3)
         | None \<Rightarrow> snd (MarkTaskCompleted e ?i w4))"
      using fresh r1 r2 True sd
      by (simp add: recover_one_def Let_def w4_def split: option.splits)
    have "tasks (recover_one e cfg cutoffTime t w) = tasks w2"
      unfolding fin using cancelled_writes(1)[OF d3] cancelled_writes(2)[OF d4] t4 f3
      by (cases err) simp_all
    then have "statuses (recover_one e cfg cutoffTime t w) = statuses w2" by (rule statuses_tasks)
    moreover have "task_order (recover_one e cfg cutoffTime t w) = task_order w2"
      unfolding fin using o4 f3 by (cases err) simp_all
    ultimately show ?thesis using s2 o2 by simp
  next
    case False
    obtain r w3 where p: "processTask e cfg (ChatID t) (StartTime t) (EndTime t) ?i w2 = (r, w3)"
      by (cases "processTask e cfg (ChatID t) (StartTime t) (EndTime t) ?i w2")
    have f3: "statuses w3 = statuses w2" "task_order w3 = task_order w2"
      using processTask_frame[of e cfg "ChatID t" "StartTime t" "EndTime t" ?i w2] p by simp_all
    have d3: "ctx_done e w3" using cancelled False p by (simp add: w2_def w1_def)
    have fin: "recover_one e cfg cutoffTime t w =
        (case r of Some err \<Rightarrow> snd (MarkTaskFailed e ?i err w3) | None \<Rightarrow> snd (MarkTaskCompleted e ?i w3))"
      using fresh r1 r2 False p by (simp add: recover_one_def split: option.splits)
    have "tasks (recover_one e cfg cutoffTime t w) = tasks w3"
      unfolding fin using cancelled_writes(1,2)[OF d3] by (cases r) simp_all
    then have "statuses (recover_one e cfg cutoffTime t w) = statuses w3" by (rule statuses_tasks)
    moreover have "task_order (recover_one e cfg cutoffTime t w) = task_order w3"
      unfolding fin by (cases r) simp_all
    ultimately show ?thesis using f3 s2 o2 by simp
  qed
qed

lemma recovery_picks_processing:
  assumes "\<not> ctx_done e w" "\<not> db_fault e (clock w)" "i \<in> set (task_order w)"
    "statuses w i = Some StatusProcessing"
  shows "\<exists>ts r. fst (GetPendingOrProcessingTasks e w) = Inr ts \<and> r \<in> set ts
     \<and> tasks w i = Some r \<and> Status r = StatusProcessing"
proof -
  obtain r where r: "tasks w i = Some r" "Status r = StatusProcessing"
    using assms(4) by (auto simp: statuses_def)
  have "r \<in> set (List.map_filter (tasks w) (task_order w))"
    using assms(3) r(1) by (force simp: List.map_filter_def)
  then show ?thesis using assms(1,2) r by (simp add: GetPendingOrProcessingTasks_def)
qed

lemma notify_loop_sleep_cancelled:
  assumes "attempt < notifyRetryTimes" "\<not> ctx_done e w" "\<not> notify_ok e (clock w)"
    "ctx_done e (snd (sleep_or_cancel e (retryInterval cfg div 2) (snd (Notify e s c w))))"
  shows "fst (notify_loop e cfg s c attempt w) = (False, Some Cancelled)"
  using assms by (simp add: notify_loop_retry)

lemma summarize_loop_sleep_cancelled:
  assumes "attempt < retryTimes cfg" "\<not> ctx_done e w" "summarize_result e (clock w) = Inl err"
    "ctx_done e (snd (sleep_or_cancel e (retryInterval cfg) (snd (SummarizeRange e c a b w))))"
  shows "fst (summarize_loop e cfg c a b attempt cur w) = Inl Cancelled"
  using assms by (simp add: summarize_loop_retry)

lemma notify_loop_error:
  "snd (fst (notify_loop e cfg s c attempt w)) = Some err \<Longrightarrow>
     err = Cancelled \<and> ctx_done e (snd (notify_loop e cfg s c attempt w))"
proof (induction e cfg s c attempt w rule: notify_loop.induct)
  case (1 e cfg s c attempt w)
  let ?w1 = "snd (Notify e s c w)"
  let ?w2 = "snd (sleep_or_cancel e (retryInterval cfg div 2) ?w1)"
  consider (after) "notifyRetryTimes < attempt"
    | (cancelled) "attempt \<le> notifyRetryTimes" "ctx_done e w"
    | (ok) "attempt \<le> notifyRetryTimes" "\<not> ctx_done e w" "notify_ok e (clock w)"
    | (last) "attempt = notifyRetryTimes" "\<not> ctx_done e w" "\<not> notify_ok e (clock w)"
    | (retry) "attempt < notifyRetryTimes" "\<not> ctx_done e w" "\<not> notify_ok e (clock w)"
    by linarith
  then show ?case
  proof cases
    case after
    then show ?thesis using "1.prems" by (simp add: notify_loop_after)
  next
    case cancelled
    then show ?thesis using "1.prems" by (simp add: notify_loop_cancelled)
  next
    case ok
    then show ?thesis using "1.prems" by (simp add: notify_loop_ok)
  next
    case last
    then show ?thesis using "1.prems" by (simp add: notify_loop_last)
  next
    case retry
    show ?thesis
    proof (cases "ctx_done e ?w2")
      case True
      with retry show ?thesis using "1.prems" by (simp add: notify_loop_retry)
    next
      case False
      have eq: "notify_loop e cfg s c attempt w = notify_loop e cfg s c (attempt + 1) ?w2"
        using retry False by (simp add: notify_loop_retry)
      have "err = Cancelled \<and> ctx_done e (snd (notify_loop e cfg s c (attempt + 1) ?w2))"
        using retry False "1.prems" eq
        by (intro "1.IH"(1)[of "fst (Notify e s c w)" ?w1
              "fst (sleep_or_cancel e (retryInterval cfg div 2) ?w1)" ?w2]) (simp_all add: prod_eq_iff)
      with eq show ?thesis by simp
    qed
  qed
qed

lemma summarize_loop_error:
  "fst (summarize_loop e cfg c a b attempt cur w) = Inl err \<Longrightarrow>
     err = Cancelled \<and> ctx_done e (snd (summarize_loop e cfg c a b attempt cur w))"
proof (induction e cfg c a b attempt cur w rule: summarize_loop.induct)
  case (1 e cfg c a b attempt cur w)
  let ?w1 = "snd (SummarizeRange e c a b w)"
  let ?w2 = "snd (sleep_or_cancel e (retryInterval cfg) ?w1)"
  consider (after) "retryTimes cfg < attempt"
    | (cancelled) "attempt \<le> retryTimes cfg" "ctx_done e w"
    | (ok) res where "attempt \<le> retryTimes cfg" "\<not> ctx_done e w" "summarize_result e (clock w) = Inr res"
    | (last) err' where "attempt = retryTimes cfg" "\<not> ctx_done e w" "summarize_result e (clock w) = Inl err'"
    | (retry) err' where "attempt < retryTimes cfg" "\<not> ctx_done e w" "summarize_result e (clock w) = Inl err'"
    by atomize_elim (cases "summarize_result e (clock w)", auto)
  then show ?case
  proof cases
    case after
    then show ?thesis using "1.prems" by (simp add: summarize_loop_after)
  next
    case cancelled
    then show ?thesis using "1.prems" by (simp add: summarize_loop_cancelled)
  next
    case ok
    then show ?thesis using "1.prems" by (simp add: summarize_loop_ok)
  next
    case last
    then show ?thesis using "1.prems" by (simp add: summarize_loop_last)
  next
    case retry
    show ?thesis
    proof (cases "ctx_done e ?w2")
      case True
      with retry show ?thesis using "1.prems" by (simp add: summarize_loop_retry)
    next
      case False
      have eq: "summarize_loop e cfg c a b attempt cur w
          = summarize_loop e cfg c a b (attempt + 1) (Inl err') ?w2"
        using retry False by (simp add: summarize_loop_retry)
      have "err = Cancelled \<and> ctx_done e (snd (summarize_loop e cfg c a b (attempt + 1) (Inl err') ?w2))"
        using retry False "1.prems" eq
        by (intro "1.IH"(1)[of "fst (SummarizeRange e c a b w)" ?w1 err'
              "fst (sleep_or_cancel e (retryInterval cfg) ?w1)" ?w2]) (simp_all add: prod_eq_iff)
      with eq show ?thesis by simp
    qed
  qed
qed

lemma retryTimes_pos: "1 \<le> retryTimes cfg"
  by (simp add: retryTimes_def)

lemma generate_start_cancelled:
  "ctx_done e w \<Longrightarrow> generateSummaryForTask e cfg c a b w = (Inl Cancelled, w)"
  by (simp add: generateSummaryForTask_def Let_def summarize_loop_cancelled retryTimes_pos)

lemma send_start_cancelled:
  "ctx_done e w \<Longrightarrow> sendTaskNotification e cfg s c w = ((False, Some Cancelled), w)"
  by (simp add: sendTaskNotification_def notify_loop_cancelled notifyRetryTimes_def)

lemma processTask_start_cancelled:
  "ctx_done e w \<Longrightarrow> processTask e cfg c a b i w = (Some Cancelled, w)"
  by (simp add: processTask_def generate_start_cancelled)

lemma generate_cancelled_seen:
  assumes "fst (generateSummaryForTask e cfg c a b w) = Inl Cancelled"
  shows "ctx_done e (snd (generateSummaryForTask e cfg c a b w))"
proof -
  obtain r w' where l: "summarize_loop e cfg c a b 1 (Inr None) w = (r, w')"
    by (cases "summarize_loop e cfg c a b 1 (Inr None) w")
  have s: "snd (generateSummaryForTask e cfg c a b w) = w'"
    by (simp add: generateSummaryForTask_def Let_def l split: sum.splits option.splits)
  have "\<exists>err. r = Inl err"
    using assms l by (auto simp: generateSummaryForTask_def Let_def split: sum.splits option.splits if_splits)
  then obtain err where "r = Inl err" by blast
  then have "ctx_done e w'" using summarize_loop_error[of e cfg c a b 1 "Inr None" w err] l by simp
  then show ?thesis using s by simp
qed

lemma send_error_seen:
  assumes "snd (fst (sendTaskNotification e cfg s c w)) = Some err"
  shows "err = Cancelled \<and> ctx_done e (snd (sendTaskNotification e cfg s c w))"
  using notify_loop_error[of e cfg s c 1 w err] assms by (simp add: sendTaskNotification_def)

lemma processTask_cancelled_seen:
  assumes "fst (processTask e cfg c a b i w) = Some Cancelled"
  shows "ctx_done e (snd (processTask e cfg c a b i w))"
proof -
  obtain g w1 where g: "generateSummaryForTask e cfg c a b w = (g, w1)"
    by (cases "generateSummaryForTask e cfg c a b w")
  show ?thesis
  proof (cases g)
    case (Inl err)
    then have p: "processTask e cfg c a b i w = (Some err, w1)" using g by (simp add: processTask_def)
    then have "err = Cancelled" using assms by simp
    then show ?thesis using generate_cancelled_seen[of e cfg c a b w] g Inl p by simp
  next
    case (Inr summary)
    show ?thesis
    proof (cases "summary = []")
      case True
      then show ?thesis using assms g Inr by (simp add: processTask_def)
    next
      case False
      define w2 where "w2 = (if i > 0 then snd (SetSummaryContent e i summary w1) else w1)"
      obtain sent r w3 where sd: "sendTaskNotification e cfg summary c w2 = ((sent, r), w3)"
        by (cases "sendTaskNotification e cfg summary c w2") auto
      show ?thesis
      proof (cases r)
        case None
        then show ?thesis using assms g Inr False sd by (simp add: processTask_def w2_def)
      next
        case (Some err)
        then have "processTask e cfg c a b i w = (Some err, w3)"
          using g Inr False sd by (simp add: processTask_def w2_def)
        moreover have "ctx_done e w3" using send_error_seen[of e cfg summary c w2 err] sd Some by simp
        ultimately show ?thesis by simp
      qed
    qed
  qed
qed

lemma send_final_attempt:
  assumes "cancel_at e = Some (clock w + 3)" "\<not> notify_ok e (clock w)" "\<not> notify_ok e (clock w + 2)"
  shows "sendTaskNotification e cfg s c w =
     ((False, None), snd (Notify e s c (snd (sleep_or_cancel e (retryInterval cfg div 2) (snd (Notify e s c w))))))"
proof -
  let ?w2 = "snd (sleep_or_cancel e (retryInterval cfg div 2) (snd (Notify e s c w)))"
  have c2: "clock ?w2 = clock w + 2" by simp
  have nd: "\<not> ctx_done e w" "\<not> ctx_done e ?w2" using assms(1) by (simp_all add: ctx_done_def)
  have "notify_loop e cfg s c 1 w = notify_loop e cfg s c (1 + 1) ?w2"
    using assms(2) nd by (simp add: notify_loop_retry notifyRetryTimes_def)
  also have "\<dots> = ((False, None), snd (Notify e s c ?w2))"
    using assms(3) nd c2 by (intro notify_loop_last) (simp_all add: notifyRetryTimes_def)
  finally show ?thesis by (simp add: sendTaskNotification_def)
qed

lemma stopping_fields [simp]:
  "cancel_at (stopping_env k) = Some k"
  "notify_ok (stopping_env k) n = False"
  "db_fault (stopping_env k) n = False"
  by (simp_all add: stopping_env_def summarizing_env_def quiet_env_def)

lemma store_of_fields [simp]:
  "clock (store_of t) = 0"
  "tasks (store_of t) (ID t) = Some t"
  "task_order (store_of t) = [ID t]"
  by (simp_all add: store_of_def)

lemma failing_fields [simp]:
  "cancel_at (failing_env k) = Some k"
  "summarize_result (failing_env k) n = Inl LLMFailed"
  "db_fault (failing_env k) n = False"
  by (simp_all add: failing_env_def quiet_env_def)

lemma generate_final_attempt:
  assumes "retryTimes cfg = 3" "cancel_at e = Some (clock w + 5)"
    "summarize_result e (clock w) = Inl err1" "summarize_result e (clock w + 2) = Inl err2"
    "summarize_result e (clock w + 4) = Inl err3"
  shows "fst (generateSummaryForTask e cfg c a b w) = Inl (SummaryFailed 3 err3)
     \<and> clock (snd (generateSummaryForTask e cfg c a b w)) = clock w + 5"
proof -
  let ?s = "\<lambda>w. snd (sleep_or_cancel e (retryInterval cfg) (snd (SummarizeRange e c a b w)))"
  have c2: "clock (?s w) = clock w + 2" by simp
  have c4: "clock (?s (?s w)) = clock w + 4" by simp
  have nd: "\<not> ctx_done e w" "\<not> ctx_done e (?s w)" "\<not> ctx_done e (?s (?s w))"
    using assms(2) by (simp_all add: ctx_done_def)
  have "summarize_loop e cfg c a b 1 (Inr None) w = summarize_loop e cfg c a b (1 + 1) (Inl err1) (?s w)"
    using assms(1,3) nd by (simp add: summarize_loop_retry)
  also have "\<dots> = summarize_loop e cfg c a b (1 + 1 + 1) (Inl err2) (?s (?s w))"
    using assms(1,4) nd c2 by (subst summarize_loop_retry[where err = err2]) simp_all
  also have "\<dots> = (Inr (Inl err3), snd (SummarizeRange e c a b (?s (?s w))))"
  proof (rule summarize_loop_last)
    show "1 + 1 + 1 = retryTimes cfg" using assms(1) by simp
    show "\<not> ctx_done e (?s (?s w))" by (rule nd(3))
    show "summarize_result e (clock (?s (?s w))) = Inl err3" using assms(5) c4 by metis
  qed
  finally have l: "summarize_loop e cfg c a b 1 (Inr None) w
      = (Inr (Inl err3), snd (SummarizeRange e c a b (?s (?s w))))" .
  show ?thesis using assms(1) by (simp add: generateSummaryForTask_def Let_def l)
qed

text \<open>
  C8, as stated, has each phase return the cancelled error whenever the signal fires
  during the phase. A phase looks at the signal at the start of an attempt and at the end
  of a retry sleep only. With the signal firing during the last delivery attempt (the
  notifier fails at steps 0 and 2, the signal fires at step 3), \<open>sendTaskNotification\<close>
  returns \<open>(false, nil)\<close>; with the signal firing during the last summary attempt (the
  summarizer fails at steps 0, 2 and 4, the signal fires at step 5),
  \<open>generateSummaryForTask\<close> returns the error of the exhausted retries.
\<close>

theorem cancel_in_final_attempt_counterexample:
  "\<not> ctx_done (stopping_env 3) (store_of pending_delivery)
   \<and> ctx_done (stopping_env 3)
       (snd (sendTaskNotification (stopping_env 3) keep_two (SummaryContent pending_delivery)
          (ChatID pending_delivery) (store_of pending_delivery)))
   \<and> fst (sendTaskNotification (stopping_env 3) keep_two (SummaryContent pending_delivery)
          (ChatID pending_delivery) (store_of pending_delivery)) = (False, None)
   \<and> \<not> ctx_done (failing_env 5) (store_of fresh_task)
   \<and> ctx_done (failing_env 5)
       (snd (generateSummaryForTask (failing_env 5) keep_two (ChatID fresh_task) (StartTime fresh_task)
          (EndTime fresh_task) (store_of fresh_task)))
   \<and> fst (generateSummaryForTask (failing_env 5) keep_two (ChatID fresh_task) (StartTime fresh_task)
          (EndTime fresh_task) (store_of fresh_task)) = Inl (SummaryFailed 3 LLMFailed)"
proof -
  have rt: "retryTimes keep_two = 3" by (simp add: retryTimes_def keep_two_def)
  have g: "fst (generateSummaryForTask (failing_env 5) keep_two (ChatID fresh_task) (StartTime fresh_task)
          (EndTime fresh_task) (store_of fresh_task)) = Inl (SummaryFailed 3 LLMFailed)
     \<and> clock (snd (generateSummaryForTask (failing_env 5) keep_two (ChatID fresh_task) (StartTime fresh_task)
          (EndTime fresh_task) (store_of fresh_task))) = clock (store_of fresh_task) + 5"
    by (rule generate_final_attempt[OF rt]) simp_all
  show ?thesis using g by (simp add: send_final_attempt ctx_done_def)
qed

text \<open>
  C8 (amended): a phase returns the cancelled error when the signal is visible at one of
  its checks, the start of an attempt or the end of the retry sleep that follows a failed
  attempt, and \<open>processTask\<close> started under a fired signal returns it at once; a phase
  that returns the cancelled error leaves a state in which the signal has fired, and the
  delivery phase returns no other error. Whenever the signal has fired by the time the
  phase (in recovery) or \<open>processTask\<close> returns, with the cancelled error or with any other
  result, the status write the caller then issues, \<open>failed\<close> or \<open>completed\<close>, goes through
  the cancelled context and the store rejects it: the status of the row stays
  \<open>processing\<close>, as the pickup wrote it. This holds for the daily run and for both
  branches of the recovery. A row left \<open>processing\<close> is among the tasks that the query of
  the recovery returns to a later start.
\<close>

theorem cancellation_leaves_processing:
  "(ctx_done e w \<longrightarrow>
      generateSummaryForTask e cfg c a b w = (Inl Cancelled, w)
      \<and> sendTaskNotification e cfg s c w = ((False, Some Cancelled), w)
      \<and> processTask e cfg c a b i w = (Some Cancelled, w))
   \<and> (attempt \<le> retryTimes cfg \<and> ctx_done e w \<longrightarrow>
        summarize_loop e cfg c a b attempt cur w = (Inl Cancelled, w))
   \<and> (attempt < retryTimes cfg \<and> \<not> ctx_done e w \<and> summarize_result e (clock w) = Inl serr
        \<and> ctx_done e (snd (sleep_or_cancel e (retryInterval cfg) (snd (SummarizeRange e c a b w))))
      \<longrightarrow> fst (summarize_loop e cfg c a b attempt cur w) = Inl Cancelled)
   \<and> (attempt \<le> notifyRetryTimes \<and> ctx_done e w \<longrightarrow>
        notify_loop e cfg s c attempt w = ((False, Some Cancelled), w))
   \<and> (attempt < notifyRetryTimes \<and> \<not> ctx_done e w \<and> \<not> notify_ok e (clock w)
        \<and> ctx_done e (snd (sleep_or_cancel e (retryInterval cfg div 2) (snd (Notify e s c w))))
      \<longrightarrow> fst (notify_loop e cfg s c attempt w) = (False, Some Cancelled))
   \<and> (fst (generateSummaryForTask e cfg c a b w) = Inl Cancelled
      \<longrightarrow> ctx_done e (snd (generateSummaryForTask e cfg c a b w)))
   \<and> (snd (fst (sendTaskNotification e cfg s c w)) = Some err
      \<longrightarrow> err = Cancelled \<and> ctx_done e (snd (sendTaskNotification e cfg s c w)))
   \<and> (fst (processTask e cfg c a b i w) = Some Cancelled
      \<longrightarrow> ctx_done e (snd (processTask e cfg c a b i w)))
   \<and> (tasks w (ID t) = Some row \<and> \<not> ctx_done e w \<and> \<not> db_fault e (clock w)
        \<and> ctx_done e (snd (processTask e cfg (ChatID t) (StartTime t) (EndTime t) (ID t)
                             (snd (UpdateTaskStatus e (ID t) StatusProcessing None w))))
      \<longrightarrow> statuses (snd (process_one e cfg t w)) (ID t) = Some StatusProcessing
        \<and> task_order (snd (process_one e cfg t w)) = task_order w)
   \<and> (SummaryContent t \<noteq> [] \<and> \<not> StartTime t < cutoffTime \<and> tasks w (ID t) = Some row
        \<and> \<not> ctx_done e (snd (ResetTaskToPending e (ID t) w))
        \<and> \<not> db_fault e (clock w) \<and> \<not> db_fault e (clock w + 1)
        \<and> ctx_done e (snd (sendTaskNotification e cfg (SummaryContent t) (ChatID t)
             (snd (UpdateTaskStatus e (ID t) StatusProcessing None (snd (ResetTaskToPending e (ID t) w))))))
      \<longrightarrow> statuses (recover_one e cfg cutoffTime t w) (ID t) = Some StatusProcessing
        \<and> task_order (recover_one e cfg cutoffTime t w) = task_order w)
   \<and> (SummaryContent t = [] \<and> \<not> StartTime t < cutoffTime \<and> tasks w (ID t) = Some row
        \<and> \<not> ctx_done e (snd (ResetTaskToPending e (ID t) w))
        \<and> \<not> db_fault e (clock w) \<and> \<not> db_fault e (clock w + 1)
        \<and> ctx_done e (snd (processTask e cfg (ChatID t) (StartTime t) (EndTime t) (ID t)
             (snd (UpdateTaskStatus e (ID t) StatusProcessing None (snd (ResetTaskToPending e (ID t) w))))))
      \<longrightarrow> statuses (recover_one e cfg cutoffTime t w) (ID t) = Some StatusProcessing
        \<and> task_order (recover_one e cfg cutoffTime t w) = task_order w)
   \<and> (\<not> ctx_done e' w' \<and> \<not> db_fault e' (clock w') \<and> j \<in> set (task_order w')
        \<and> statuses w' j = Some StatusProcessing
      \<longrightarrow> (\<exists>ts r. fst (GetPendingOrProcessingTasks e' w') = Inr ts \<and> r \<in> set ts
             \<and> tasks w' j = Some r \<and> Status r = StatusProcessing))"
proof -
  have 1: "ctx_done e w \<longrightarrow>
      generateSummaryForTask e cfg c a b w = (Inl Cancelled, w)
      \<and> sendTaskNotification e cfg s c w = ((False, Some Cancelled), w)
      \<and> processTask e cfg c a b i w = (Some Cancelled, w)"
    by (simp add: generate_start_cancelled send_start_cancelled processTask_start_cancelled)
  have 2: "attempt \<le> retryTimes cfg \<and> ctx_done e w \<longrightarrow>
        summarize_loop e cfg c a b attempt cur w = (Inl Cancelled, w)"
    by (simp add: summarize_loop_cancelled)
  have 3: "attempt < retryTimes cfg \<and> \<not> ctx_done e w \<and> summarize_result e (clock w) = Inl serr
        \<and> ctx_done e (snd (sleep_or_cancel e (retryInterval cfg) (snd (SummarizeRange e c a b w))))
      \<longrightarrow> fst (summarize_loop e cfg c a b attempt cur w) = Inl Cancelled"
    using summarize_loop_sleep_cancelled[of attempt cfg e w serr c a b cur] by blast
  have 4: "attempt \<le> notifyRetryTimes \<and> ctx_done e w \<longrightarrow>
        notify_loop e cfg s c attempt w = ((False, Some Cancelled), w)"
    by (simp add: notify_loop_cancelled)
  have 5: "attempt < notifyRetryTimes \<and> \<not> ctx_done e w \<and> \<not> notify_ok e (clock w)
        \<and> ctx_done e (snd (sleep_or_cancel e (retryInterval cfg div 2) (snd (Notify e s c w))))
      \<longrightarrow> fst (notify_loop e cfg s c attempt w) = (False, Some Cancelled)"
    using notify_loop_sleep_cancelled[of attempt e w cfg s c] by blast
  have 6: "fst (generateSummaryForTask e cfg c a b w) = Inl Cancelled
      \<longrightarrow> ctx_done e (snd (generateSummaryForTask e cfg c a b w))"
    using generate_cancelled_seen[of e cfg c a b w] by blast
  have 7: "snd (fst (sendTaskNotification e cfg s c w)) = Some err
      \<longrightarrow> err = Cancelled \<and> ctx_done e (snd (sendTaskNotification e cfg s c w))"
    using send_error_seen[of e cfg s c w err] by blast
  have 8: "fst (processTask e cfg c a b i w) = Some Cancelled
      \<longrightarrow> ctx_done e (snd (processTask e cfg c a b i w))"
    using processTask_cancelled_seen[of e cfg c a b i w] by blast
  have 9: "tasks w (ID t) = Some row \<and> \<not> ctx_done e w \<and> \<not> db_fault e (clock w)
        \<and> ctx_done e (snd (processTask e cfg (ChatID t) (StartTime t) (EndTime t) (ID t)
                             (snd (UpdateTaskStatus e (ID t) StatusProcessing None w))))
      \<longrightarrow> statuses (snd (process_one e cfg t w)) (ID t) = Some StatusProcessing
        \<and> task_order (snd (process_one e cfg t w)) = task_order w"
    using process_one_cancelled[of w t row e cfg] by blast
  have 10: "SummaryContent t \<noteq> [] \<and> \<not> StartTime t < cutoffTime \<and> tasks w (ID t) = Some row
        \<and> \<not> ctx_done e (snd (ResetTaskToPending e (ID t) w))
        \<and> \<not> db_fault e (clock w) \<and> \<not> db_fault e (clock w + 1)
        \<and> ctx_done e (snd (sendTaskNotification e cfg (SummaryContent t) (ChatID t)
             (snd (UpdateTaskStatus e (ID t) StatusProcessing None (snd (ResetTaskToPending e (ID t) w))))))
      \<longrightarrow> statuses (recover_one e cfg cutoffTime t w) (ID t) = Some StatusProcessing
        \<and> task_order (recover_one e cfg cutoffTime t w) = task_order w"
    using recover_one_cancelled[of t cutoffTime w row e cfg] by simp
  have 11: "SummaryContent t = [] \<and> \<not> StartTime t < cutoffTime \<and> tasks w (ID t) = Some row
        \<and> \<not> ctx_done e (snd (ResetTaskToPending e (ID t) w))
        \<and> \<not> db_fault e (clock w) \<and> \<not> db_fault e (clock w + 1)
        \<and> ctx_done e (snd (processTask e cfg (ChatID t) (StartTime t) (EndTime t) (ID t)
             (snd (UpdateTaskStatus e (ID t) StatusProcessing None (snd (ResetTaskToPending e (ID t) w))))))
      \<longrightarrow> statuses (recover_one e cfg cutoffTime t w) (ID t) = Some StatusProcessing
        \<and> task_order (recover_one e cfg cutoffTime t w) = task_order w"
    using recover_one_cancelled[of t cutoffTime w row e cfg] by simp
  have 12: "\<not> ctx_done e' w' \<and> \<not> db_fault e' (clock w') \<and> j \<in> set (task_order w')
        \<and> statuses w' j = Some StatusProcessing
      \<longrightarrow> (\<exists>ts r. fst (GetPendingOrProcessingTasks e' w') = Inr ts \<and> r \<in> set ts
             \<and> tasks w' j = Some r \<and> Status r = StatusProcessing)"
    using recovery_picks_processing[of e' w' j] by blast
  show ?thesis
    apply (intro conjI)
    apply (rule 1) apply (rule 2) apply (rule 3) apply (rule 4) apply (rule 5) apply (rule 6)
    apply (rule 7) apply (rule 8) apply (rule 9) apply (rule 10) apply (rule 11) apply (rule 12)
    done
qed

lemma generate_ok:
  assumes "\<not> ctx_done e w" "summarize_result e (clock w) = Inr (Some r)"
    "FormatSummaryForDisplay (Some r) c (format_date e a) (format_date e (AddDate_days b (- 1))) = summary"
    "summary \<noteq> []"
  shows "generateSummaryForTask e cfg c a b w = (Inr summary, snd (SummarizeRange e c a b w))"
proof -
  have "summarize_loop e cfg c a b 1 (Inr None) w = (Inr (Inr (Some r)), snd (SummarizeRange e c a b w))"
    using assms(1,2) by (intro summarize_loop_ok) (simp_all add: retryTimes_pos)
  then show ?thesis using assms(3,4) by (simp add: generateSummaryForTask_def Let_def)
qed

lemma processTask_final_attempt:
  assumes gen: "generateSummaryForTask e cfg c a b w = (Inr summary, wg)"
    and ne: "summary \<noteq> []"
    and pos: "0 < i"
    and stop: "cancel_at e = Some (clock wg + 4)"
    and f1: "\<not> notify_ok e (clock wg + 1)" and f2: "\<not> notify_ok e (clock wg + 3)"
  shows "fst (processTask e cfg c a b i w) = None
     \<and> ctx_done e (snd (processTask e cfg c a b i w))"
proof -
  define w2 where "w2 = snd (SetSummaryContent e i summary wg)"
  define w3 where "w3 = snd (Notify e summary c (snd (sleep_or_cancel e (retryInterval cfg div 2)
                               (snd (Notify e summary c w2)))))"
  have c2: "clock w2 = clock wg + 1" by (simp add: w2_def)
  have c3: "clock w3 = clock wg + 4" by (simp add: w3_def c2)
  have "clock w2 + 3 = clock wg + 4" "clock w2 + 2 = clock wg + 3" by (simp_all add: c2)
  then have h: "cancel_at e = Some (clock w2 + 3)" "\<not> notify_ok e (clock w2)" "\<not> notify_ok e (clock w2 + 2)"
    using stop f1 f2 c2 by metis+
  have s: "sendTaskNotification e cfg summary c w2 = ((False, None), w3)"
    unfolding w3_def by (rule send_final_attempt[OF h])
  have d3: "ctx_done e w3" using stop c3 by (simp add: ctx_done_def)
  have "processTask e cfg c a b i w = (None, w3)"
    using gen ne s pos by (simp add: processTask_def w2_def)
  then show ?thesis using d3 by simp
qed

lemma stopping_results [simp]:
  "summarize_result (stopping_env k) n = Inr (Some script_result)"
  "format_date (stopping_env k) x = ''2025-02-10''"
  by (simp_all add: stopping_env_def summarizing_env_def quiet_env_def)

lemma quiet_fields [simp]:
  "cancel_at quiet_env = None"
  "db_fault quiet_env n = False"
  by (simp_all add: quiet_env_def)

lemma example_fields:
  "0 < ID fresh_task" "ChatID fresh_task = - 1001427755127"
  "SummaryContent pending_delivery \<noteq> []"
  by (simp_all add: fresh_task_def pending_delivery_def)

theorem cancellation_leaves_processing_witness:
  "\<not> ctx_done (stopping_env 6) (store_of fresh_task)
   \<and> fst (processTask (stopping_env 6) keep_two (ChatID fresh_task) (StartTime fresh_task)
        (EndTime fresh_task) (ID fresh_task)
        (snd (UpdateTaskStatus (stopping_env 6) (ID fresh_task) StatusProcessing None (store_of fresh_task))))
      = None
   \<and> ctx_done (stopping_env 6)
       (snd (processTask (stopping_env 6) keep_two (ChatID fresh_task) (StartTime fresh_task)
          (EndTime fresh_task) (ID fresh_task)
          (snd (UpdateTaskStatus (stopping_env 6) (ID fresh_task) StatusProcessing None (store_of fresh_task)))))
   \<and> statuses stopped_run (ID fresh_task) = Some StatusProcessing
   \<and> (\<exists>ts r. fst (GetPendingOrProcessingTasks quiet_env stopped_run) = Inr ts \<and> r \<in> set ts
        \<and> tasks stopped_run (ID fresh_task) = Some r \<and> Status r = StatusProcessing)
   \<and> \<not> ctx_done (stopping_env 1) (store_of fresh_task)
   \<and> fst (processTask (stopping_env 1) keep_two (ChatID fresh_task) (StartTime fresh_task)
        (EndTime fresh_task) (ID fresh_task)
        (snd (UpdateTaskStatus (stopping_env 1) (ID fresh_task) StatusProcessing None (store_of fresh_task))))
      = Some Cancelled
   \<and> statuses (snd (process_one (stopping_env 1) keep_two fresh_task (store_of fresh_task))) (ID fresh_task)
      = Some StatusProcessing
   \<and> SummaryContent pending_delivery \<noteq> []
   \<and> \<not> StartTime pending_delivery < AddDate_days (10 * day + 18000000000000) (- 7)
   \<and> \<not> ctx_done (stopping_env 2)
         (snd (ResetTaskToPending (stopping_env 2) (ID pending_delivery) (store_of pending_delivery)))
   \<and> fst (sendTaskNotification (stopping_env 2) keep_two (SummaryContent pending_delivery)
        (ChatID pending_delivery)
        (snd (UpdateTaskStatus (stopping_env 2) (ID pending_delivery) StatusProcessing None
           (snd (ResetTaskToPending (stopping_env 2) (ID pending_delivery) (store_of pending_delivery))))))
      = (False, Some Cancelled)
   \<and> statuses (recover_one (stopping_env 2) keep_two (AddDate_days (10 * day + 18000000000000) (- 7))
        pending_delivery (store_of pending_delivery)) (ID pending_delivery) = Some StatusProcessing
   \<and> \<not> ctx_done (stopping_env 2) (store_of pending_delivery)
   \<and> fst (notify_loop (stopping_env 2) keep_two (SummaryContent pending_delivery)
        (ChatID pending_delivery) 1 (store_of pending_delivery)) = (False, Some Cancelled)
   \<and> \<not> ctx_done (failing_env 2) (store_of fresh_task)
   \<and> fst (summarize_loop (failing_env 2) keep_two (ChatID fresh_task) (StartTime fresh_task)
        (EndTime fresh_task) 1 (Inr None) (store_of fresh_task)) = Inl Cancelled"
proof -
  let ?c = "ChatID fresh_task" and ?a = "StartTime fresh_task" and ?b = "EndTime fresh_task"
  let ?cut = "AddDate_days (10 * day + 18000000000000) (- 7)"
  let ?summary = "FormatSummaryForDisplay (Some script_result) (- 1001427755127) ''2025-02-10'' ''2025-02-10''"
  let ?w6 = "snd (UpdateTaskStatus (stopping_env 6) (ID fresh_task) StatusProcessing None (store_of fresh_task))"
  let ?g6 = "snd (SummarizeRange (stopping_env 6) ?c ?a ?b ?w6)"
  have a1: "\<not> ctx_done (stopping_env 6) (store_of fresh_task)" by (simp add: ctx_done_def)
  have ne: "?summary \<noteq> []" unfolding format_example by (simp add: header_title_def)
  have nd6: "\<not> ctx_done (stopping_env 6) ?w6" by (simp add: ctx_done_def)
  have gen6: "generateSummaryForTask (stopping_env 6) keep_two ?c ?a ?b ?w6 = (Inr ?summary, ?g6)"
    by (rule generate_ok[OF nd6 _ _ ne]) (simp_all add: example_fields)
  have a23: "fst (processTask (stopping_env 6) keep_two ?c ?a ?b (ID fresh_task) ?w6) = None
      \<and> ctx_done (stopping_env 6) (snd (processTask (stopping_env 6) keep_two ?c ?a ?b (ID fresh_task) ?w6))"
    by (rule processTask_final_attempt[OF gen6 ne]) (simp_all add: example_fields)
  note T6 = cancellation_leaves_processing[where e = "stopping_env 6" and w = "store_of fresh_task"
      and cfg = keep_two and c = ?c and a = ?a and b = ?b and s = "[]" and i = "ID fresh_task" and attempt = 1
      and cur = "Inr None" and serr = LLMFailed and err = Cancelled and t = fresh_task
      and row = fresh_task and cutoffTime = ?cut and e' = quiet_env and w' = stopped_run
      and j = "ID fresh_task"]
  have a4: "statuses stopped_run (ID fresh_task) = Some StatusProcessing
      \<and> task_order stopped_run = task_order (store_of fresh_task)"
  proof -
    have "tasks (store_of fresh_task) (ID fresh_task) = Some fresh_task" by simp
    moreover have "\<not> db_fault (stopping_env 6) (clock (store_of fresh_task))" by simp
    ultimately show ?thesis unfolding stopped_run_def
      using a1 a23 by (intro mp[OF T6[THEN conjunct2, THEN conjunct2, THEN conjunct2, THEN conjunct2, THEN conjunct2, THEN conjunct2, THEN conjunct2, THEN conjunct2, THEN conjunct1]] conjI) simp_all
  qed
  have a5: "\<exists>ts r. fst (GetPendingOrProcessingTasks quiet_env stopped_run) = Inr ts \<and> r \<in> set ts
        \<and> tasks stopped_run (ID fresh_task) = Some r \<and> Status r = StatusProcessing"
  proof -
    have "\<not> ctx_done quiet_env stopped_run" by (simp add: ctx_done_never)
    moreover have "\<not> db_fault quiet_env (clock stopped_run)" by simp
    moreover have "ID fresh_task \<in> set (task_order stopped_run)" using a4 by simp
    ultimately show ?thesis
      using a4 by (intro mp[OF T6[THEN conjunct2, THEN conjunct2, THEN conjunct2, THEN conjunct2, THEN conjunct2, THEN conjunct2, THEN conjunct2, THEN conjunct2, THEN conjunct2, THEN conjunct2, THEN conjunct2]] conjI) simp_all
  qed
  let ?w1 = "snd (UpdateTaskStatus (stopping_env 1) (ID fresh_task) StatusProcessing None (store_of fresh_task))"
  note T1 = cancellation_leaves_processing[where e = "stopping_env 1" and w = ?w1
      and cfg = keep_two and c = ?c and a = ?a and b = ?b and s = "[]" and i = "ID fresh_task"
      and attempt = 1 and cur = "Inr None" and serr = LLMFailed and err = Cancelled and t = fresh_task
      and row = fresh_task and cutoffTime = ?cut and e' = quiet_env and w' = stopped_run
      and j = "ID fresh_task"]
  note T1' = cancellation_leaves_processing[where e = "stopping_env 1" and w = "store_of fresh_task"
      and cfg = keep_two and c = ?c and a = ?a and b = ?b and s = "[]" and i = "ID fresh_task"
      and attempt = 1 and cur = "Inr None" and serr = LLMFailed and err = Cancelled and t = fresh_task
      and row = fresh_task and cutoffTime = ?cut and e' = quiet_env and w' = stopped_run
      and j = "ID fresh_task"]
  have b1: "\<not> ctx_done (stopping_env 1) (store_of fresh_task)" by (simp add: ctx_done_def)
  have d1: "ctx_done (stopping_env 1) ?w1" by (simp add: ctx_done_def)
  have b2: "processTask (stopping_env 1) keep_two ?c ?a ?b (ID fresh_task) ?w1 = (Some Cancelled, ?w1)"
    using mp[OF T1[THEN conjunct1] d1] by simp
  have b3: "statuses (snd (process_one (stopping_env 1) keep_two fresh_task (store_of fresh_task)))
      (ID fresh_task) = Some StatusProcessing"
  proof -
    have "tasks (store_of fresh_task) (ID fresh_task) = Some fresh_task" by simp
    moreover have "\<not> db_fault (stopping_env 1) (clock (store_of fresh_task))" by simp
    moreover have "ctx_done (stopping_env 1)
        (snd (processTask (stopping_env 1) keep_two ?c ?a ?b (ID fresh_task) ?w1))"
      using b2 d1 by simp
    ultimately show ?thesis
      using b1 by (intro conjunct1[OF mp[OF T1'[THEN conjunct2, THEN conjunct2, THEN conjunct2, THEN conjunct2, THEN conjunct2, THEN conjunct2, THEN conjunct2, THEN conjunct2, THEN conjunct1]]] conjI) simp_all
  qed
  let ?r1 = "snd (ResetTaskToPending (stopping_env 2) (ID pending_delivery) (store_of pending_delivery))"
  let ?r2 = "snd (UpdateTaskStatus (stopping_env 2) (ID pending_delivery) StatusProcessing None ?r1)"
  note T2 = cancellation_leaves_processing[where e = "stopping_env 2" and w = ?r2
      and cfg = keep_two and c = "ChatID pending_delivery" and a = ?a and b = ?b
      and s = "SummaryContent pending_delivery" and i = "ID pending_delivery"
      and attempt = 1 and cur = "Inr None" and serr = LLMFailed and err = Cancelled and t = pending_delivery
      and row = pending_delivery and cutoffTime = ?cut and e' = quiet_env and w' = stopped_run
      and j = "ID fresh_task"]
  note T2' = cancellation_leaves_processing[where e = "stopping_env 2" and w = "store_of pending_delivery"
      and cfg = keep_two and c = "ChatID pending_delivery" and a = ?a and b = ?b
      and s = "SummaryContent pending_delivery" and i = "ID pending_delivery"
      and attempt = 1 and cur = "Inr None" and serr = LLMFailed and err = Cancelled and t = pending_delivery
      and row = pending_delivery and cutoffTime = ?cut and e' = quiet_env and w' = stopped_run
      and j = "ID fresh_task"]
  have c1: "SummaryContent pending_delivery \<noteq> []" by (rule example_fields)
  have c2: "\<not> StartTime pending_delivery < ?cut"
    by (simp add: pending_delivery_def AddDate_days_def day_def)
  have c3: "\<not> ctx_done (stopping_env 2) ?r1" by (simp add: ctx_done_def)
  have d2: "ctx_done (stopping_env 2) ?r2" by (simp add: ctx_done_def)
  have c4: "sendTaskNotification (stopping_env 2) keep_two (SummaryContent pending_delivery)
      (ChatID pending_delivery) ?r2 = ((False, Some Cancelled), ?r2)"
    using mp[OF T2[THEN conjunct1] d2] by simp
  have c5: "statuses (recover_one (stopping_env 2) keep_two ?cut pending_delivery (store_of pending_delivery))
      (ID pending_delivery) = Some StatusProcessing"
  proof -
    have "tasks (store_of pending_delivery) (ID pending_delivery) = Some pending_delivery" by simp
    moreover have "\<not> db_fault (stopping_env 2) (clock (store_of pending_delivery))"
      "\<not> db_fault (stopping_env 2) (clock (store_of pending_delivery) + 1)" by simp_all
    moreover have "ctx_done (stopping_env 2)
        (snd (sendTaskNotification (stopping_env 2) keep_two (SummaryContent pending_delivery)
           (ChatID pending_delivery) ?r2))"
      using c4 d2 by simp
    ultimately show ?thesis
      using c1 c2 c3 by (intro conjunct1[OF mp[OF T2'[THEN conjunct2, THEN conjunct2, THEN conjunct2, THEN conjunct2, THEN conjunct2, THEN conjunct2, THEN conjunct2, THEN conjunct2, THEN conjunct2, THEN conjunct1]]] conjI) simp_all
  qed
  have e1: "\<not> ctx_done (stopping_env 2) (store_of pending_delivery)" by (simp add: ctx_done_def)
  have e2: "ctx_done (stopping_env 2) (snd (sleep_or_cancel (stopping_env 2) (retryInterval keep_two div 2)
      (snd (Notify (stopping_env 2) (SummaryContent pending_delivery) (ChatID pending_delivery)
         (store_of pending_delivery)))))"
    by (simp add: ctx_done_def)
  have e3: "fst (notify_loop (stopping_env 2) keep_two (SummaryContent pending_delivery)
        (ChatID pending_delivery) 1 (store_of pending_delivery)) = (False, Some Cancelled)"
  proof -
    have "(1::int) < notifyRetryTimes" by (simp add: notifyRetryTimes_def)
    moreover have "\<not> notify_ok (stopping_env 2) (clock (store_of pending_delivery))" by simp
    ultimately show ?thesis
      using e1 e2 by (intro mp[OF T2'[THEN conjunct2, THEN conjunct2, THEN conjunct2, THEN conjunct2, THEN conjunct1]] conjI) simp_all
  qed
  note T3 = cancellation_leaves_processing[where e = "failing_env 2" and w = "store_of fresh_task"
      and cfg = keep_two and c = ?c and a = ?a and b = ?b and s = "[]" and i = 1
      and attempt = 1 and cur = "Inr None" and serr = LLMFailed and err = Cancelled and t = fresh_task
      and row = fresh_task and cutoffTime = ?cut and e' = quiet_env and w' = stopped_run
      and j = "ID fresh_task"]
  have f1: "\<not> ctx_done (failing_env 2) (store_of fresh_task)" by (simp add: ctx_done_def)
  have f2: "ctx_done (failing_env 2) (snd (sleep_or_cancel (failing_env 2) (retryInterval keep_two)
      (snd (SummarizeRange (failing_env 2) ?c ?a ?b (store_of fresh_task)))))"
    by (simp add: ctx_done_def)
  have f3: "fst (summarize_loop (failing_env 2) keep_two ?c ?a ?b 1 (Inr None) (store_of fresh_task))
      = Inl Cancelled"
  proof -
    have "1 < retryTimes keep_two" by (simp add: retryTimes_def keep_two_def)
    moreover have "summarize_result (failing_env 2) (clock (store_of fresh_task)) = Inl LLMFailed" by simp
    ultimately show ?thesis
      using f1 f2 by (intro mp[OF T3[THEN conjunct2, THEN conjunct2, THEN conjunct1]] conjI) simp_all
  qed
  show ?thesis
    apply (intro conjI)
    apply (rule a1) apply (rule conjunct1[OF a23]) apply (rule conjunct2[OF a23])
    apply (rule conjunct1[OF a4]) apply (rule a5)
    apply (rule b1) apply (simp only: b2 fst_conv) apply (rule b3)
    apply (rule c1) apply (rule c2) apply (rule c3) apply (simp only: c4 fst_conv) apply (rule c5)
    apply (rule e1) apply (rule e3) apply (rule f1) apply (rule f3)
    done
qed

end
